theory Spec2Isabelle
  imports Main
begin

section \<open>Module rewriting of served scripts (src/node/serverPluginModuleRewrite.ts)\<close>

text \<open>
  The plugin rewrites the import specifiers of served JavaScript, keeps the
  importer/importee graph used by hot module replacement, and memoises rewritten bodies
  in an LRU cache. Source text is modelled as \<open>string\<close> (a list of 8-bit characters);
  a JavaScript call that can throw returns an \<open>outcome\<close>.
\<close>

datatype 'a outcome = Returns 'a | Throws

subsection \<open>Strings and the regular expressions of the source\<close>

text \<open>\<open>String.prototype.substring(start, end)\<close>: both indices are clamped to the
  length and swapped when \<open>start > end\<close>.\<close>

definition substring :: "string \<Rightarrow> nat \<Rightarrow> nat \<Rightarrow> string" where
  "substring str a b =
     (let a' = min a (length str); b' = min b (length str)
      in take (max a' b' - min a' b') (drop (min a' b') str))"

text \<open>The class \<open>\w\<close> is \<open>[A-Za-z0-9_]\<close>; \<open>\d\<close> is \<open>[0-9]\<close>; the dot of a
  regular expression matches every character but a line terminator.\<close>

definition isWordChar :: "char \<Rightarrow> bool" where
  "isWordChar c =
     (let n = (of_char c :: nat)
      in (65 \<le> n \<and> n \<le> 90) \<or> (97 \<le> n \<and> n \<le> 122) \<or> (48 \<le> n \<and> n \<le> 57) \<or> n = 95)"

definition isDigit :: "char \<Rightarrow> bool" where
  "isDigit c = (let n = (of_char c :: nat) in 48 \<le> n \<and> n \<le> 57)"

definition isLineTerminator :: "char \<Rightarrow> bool" where
  "isLineTerminator c = (c = CHR 0x0A \<or> c = CHR 0x0D)"

definition startsWith :: "string \<Rightarrow> string \<Rightarrow> bool" where
  "startsWith str p = (take (length p) str = p)"

text \<open>\<open>/^[^\/\.]/.test(id)\<close>: the specifier has a first character, which is neither a
  slash nor a dot.\<close>

definition isBareId :: "string \<Rightarrow> bool" where
  "isBareId idn = (case idn of [] \<Rightarrow> False | c # _ \<Rightarrow> c \<noteq> CHR ''/'' \<and> c \<noteq> CHR ''.'')"

text \<open>\<open>queryRE = /\?.*$/\<close> (no flags): the leftmost question mark after which no line
  terminator stands before the end of the string; the match runs to the end.
  \<open>splitQuery id\<close> is the pair \<open>(id.replace(queryRE, ''), match ? match[0] : '')\<close>.\<close>

fun splitQuery :: "string \<Rightarrow> string \<times> string" where
  "splitQuery [] = ([], [])"
| "splitQuery (c # cs) =
     (if c = CHR ''?'' \<and> list_all (\<lambda>x. \<not> isLineTerminator x) cs then ([], c # cs)
      else (case splitQuery cs of (p, q) \<Rightarrow> (c # p, q)))"

text \<open>\<open>/\.\w+/.test(pathname)\<close>: somewhere a dot is followed by a word character.\<close>

fun hasDotWord :: "string \<Rightarrow> bool" where
  "hasDotWord (c # d # cs) = ((c = CHR ''.'' \<and> isWordChar d) \<or> hasDotWord (d # cs))"
| "hasDotWord _ = False"

text \<open>\<open>/.vue$|.vue\?type=/.test(importer)\<close>: the dots are not escaped, so each stands
  for any character that is not a line terminator.\<close>

fun isVueImporter :: "string \<Rightarrow> bool" where
  "isVueImporter [] = False"
| "isVueImporter (c # cs) =
     ((\<not> isLineTerminator c \<and> (cs = ''vue'' \<or> startsWith cs ''vue?type=''))
      \<or> isVueImporter cs)"

subsection \<open>The edit buffer (magic-string)\<close>

text \<open>
  A \<open>MagicString\<close> is the original text cut into chunks that cover it from left to
  right. \<open>overwrite(start, end, content)\<close> cuts at both offsets, which fails inside a
  chunk that holds an earlier replacement, and marks the chunks of the range as edited:
  the first carries the new content, the others the empty string. It refuses a range of
  length zero and an end beyond the text. The import records of the lexer satisfy
  \<open>s \<le> e\<close>; a call with \<open>start > end\<close> is modelled as failing.
\<close>

record chunk =
  c_start :: nat
  c_end :: nat
  c_intro :: string
  c_content :: string
  c_outro :: string
  c_edited :: bool

record magicString =
  original :: string
  ms_intro :: string
  ms_outro :: string
  chunks :: "chunk list"

definition newMagicString :: "string \<Rightarrow> magicString" where
  "newMagicString str =
     \<lparr>original = str, ms_intro = [], ms_outro = [],
      chunks = [\<lparr>c_start = 0, c_end = length str, c_intro = [], c_content = str,
                 c_outro = [], c_edited = False\<rparr>]\<rparr>"

definition chunkEdit :: "string \<Rightarrow> chunk \<Rightarrow> chunk" where
  "chunkEdit content c = c\<lparr>c_intro := [], c_content := content, c_outro := [], c_edited := True\<rparr>"

definition chunkSplit :: "string \<Rightarrow> nat \<Rightarrow> chunk \<Rightarrow> chunk list" where
  "chunkSplit str i c =
     (let before = c\<lparr>c_end := i, c_outro := [],
                      c_content := (if c_edited c then [] else substring str (c_start c) i)\<rparr>;
          after = \<lparr>c_start = i, c_end = c_end c, c_intro = [],
                   c_content = substring str i (c_end c), c_outro = c_outro c,
                   c_edited = False\<rparr>
      in [before, if c_edited c then chunkEdit [] after else after])"

fun splitAt :: "string \<Rightarrow> nat \<Rightarrow> chunk list \<Rightarrow> chunk list outcome" where
  "splitAt str i [] = Returns []"
| "splitAt str i (c # cs) =
     (if c_start c < i \<and> i < c_end c then
        (if c_edited c \<and> c_content c \<noteq> [] then Throws
         else Returns (chunkSplit str i c @ cs))
      else (case splitAt str i cs of Throws \<Rightarrow> Throws | Returns cs' \<Rightarrow> Returns (c # cs')))"

definition editRange :: "nat \<Rightarrow> nat \<Rightarrow> string \<Rightarrow> chunk \<Rightarrow> chunk" where
  "editRange start fin content c =
     (if c_start c = start \<and> c_end c \<le> fin then chunkEdit content c
      else if start < c_start c \<and> c_end c \<le> fin then chunkEdit [] c
      else c)"

definition overwrite :: "nat \<Rightarrow> nat \<Rightarrow> string \<Rightarrow> magicString \<Rightarrow> magicString outcome" where
  "overwrite start fin content m =
     (if length (original m) < fin then Throws
      else if start = fin then Throws
      else if fin < start then Throws
      else (case splitAt (original m) start (chunks m) of
              Throws \<Rightarrow> Throws
            | Returns cs1 \<Rightarrow>
                (case splitAt (original m) fin cs1 of
                   Throws \<Rightarrow> Throws
                 | Returns cs2 \<Rightarrow>
                     Returns (m\<lparr>chunks := map (editRange start fin content) cs2\<rparr>))))"

definition chunkToString :: "chunk \<Rightarrow> string" where
  "chunkToString c = c_intro c @ c_content c @ c_outro c"

definition toString :: "magicString \<Rightarrow> string" where
  "toString m = ms_intro m @ concat (map chunkToString (chunks m)) @ ms_outro m"

subsection \<open>Collaborators and the shared state\<close>

text \<open>
  An import record of es-module-lexer: the specifier is \<open>source[s, e)\<close>; \<open>d\<close> is
  \<open>-1\<close> for a static import, the offset of the expression for a dynamic import, and
  \<open>-2\<close> for \<open>import.meta\<close>.
\<close>

record importSpecifier =
  imp_s :: nat
  imp_e :: nat
  imp_d :: int

text \<open>
  The collaborators of the plugin, taken as parameters: the lexer (\<open>parseImports\<close>
  throws on text it cannot scan), the resolver, the HMR transformer, which patches the
  edit buffer in place, the constant \<open>hmrClientPublicPath\<close>, and
  \<open>importeePath importer resolved\<close> for
  \<open>slash(path.resolve(path.dirname(importer), resolved))\<close>.
\<close>

record env =
  parseImports :: "string \<Rightarrow> importSpecifier list outcome"
  idToRequest :: "string \<Rightarrow> string option outcome"
  fileToRequest :: "string \<Rightarrow> string"
  rewriteFileWithHMR :: "string \<Rightarrow> string \<Rightarrow> magicString \<Rightarrow> magicString outcome"
  hmrClientPublicPath :: string
  importeePath :: "string \<Rightarrow> string \<Rightarrow> string"

datatype logEntry = Debug string | DebugHmr string | ConsoleError string

text \<open>
  The process-wide state: the two maps of the dependency graph (a JavaScript \<open>Set\<close> is a
  duplicate-free list in insertion order), the rewrite cache (most recently used first)
  and what has been written to the debug channels and the console.
\<close>

record state =
  importeeMap :: "string \<rightharpoonup> string list"
  importerMap :: "string \<rightharpoonup> string list"
  rewriteCache :: "(string \<times> string) list"
  logged :: "logEntry list"

definition setAdd :: "string \<Rightarrow> string list \<Rightarrow> string list" where
  "setAdd x xs = (if x \<in> set xs then xs else xs @ [x])"

definition setDelete :: "string \<Rightarrow> string list \<Rightarrow> string list" where
  "setDelete x xs = removeAll x xs"

definition emit :: "logEntry \<Rightarrow> state \<Rightarrow> state" where
  "emit l st = st\<lparr>logged := logged st @ [l]\<rparr>"

text \<open>Modelled from the spec: \<open>ensureMapEntry\<close> of serverPluginHmr, which is not among
  the sources ("entries are created lazily on first edge insertion"): the set stored
  under the key, after storing an empty one when there is none.\<close>

definition ensureMapEntry :: "(string \<rightharpoonup> string list) \<Rightarrow> string \<Rightarrow> (string \<rightharpoonup> string list)" where
  "ensureMapEntry m k = (case m k of None \<Rightarrow> m(k \<mapsto> []) | Some _ \<Rightarrow> m)"

definition entryOf :: "(string \<rightharpoonup> string list) \<Rightarrow> string \<Rightarrow> string list" where
  "entryOf m k = (case m k of None \<Rightarrow> [] | Some xs \<Rightarrow> xs)"

subsection \<open>rewriteImports\<close>

definition dq :: string where
  "dq = [CHR 0x22]"

text \<open>The bare branch: \<open>resolver.idToRequest(id) || `/@modules/${id}`\<close>. The empty
  string is falsy.\<close>

definition bareRequest :: "env \<Rightarrow> string \<Rightarrow> string outcome" where
  "bareRequest env idn =
     (case idToRequest env idn of
        Throws \<Rightarrow> Throws
      | Returns None \<Rightarrow> Returns (''/@modules/'' @ idn)
      | Returns (Some r) \<Rightarrow> Returns (if r = [] then ''/@modules/'' @ idn else r))"

text \<open>The relative/absolute branch (lines 162 to 176). The timestamp is
  \<open>ctx.query.t\<close>: absent, or a string, which is falsy when empty.\<close>

definition relativeRequest :: "string option \<Rightarrow> string \<Rightarrow> string" where
  "relativeRequest timestamp idn =
     (case splitQuery idn of
        (pathname, query) \<Rightarrow>
          (let pathname' = (if \<not> hasDotWord pathname then pathname @ ''.js'' else pathname);
               query' = (case timestamp of
                           None \<Rightarrow> query
                         | Some t \<Rightarrow>
                             if t = [] then query
                             else query @ (if query \<noteq> [] then ''&'' else ''?'') @ ''t='' @ t)
           in pathname' @ query'))"

text \<open>Lines 148 to 177: the request a static specifier is rewritten to, with the
  buffer and \<open>hasReplaced\<close> after the HMR transformer has run, if it does.\<close>

definition resolveStatic ::
  "env \<Rightarrow> string \<Rightarrow> string \<Rightarrow> string option \<Rightarrow> string \<Rightarrow> magicString \<times> bool
     \<Rightarrow> (string \<times> magicString \<times> bool) outcome" where
  "resolveStatic env source importer timestamp idn loc =
     (if isBareId idn then
        (case bareRequest env idn of
           Throws \<Rightarrow> Throws
         | Returns resolved \<Rightarrow>
             if resolved = hmrClientPublicPath env \<and> \<not> isVueImporter importer then
               (case rewriteFileWithHMR env source importer (fst loc) of
                  Throws \<Rightarrow> Throws
                | Returns s' \<Rightarrow> Returns (resolved, s', True))
             else Returns (resolved, fst loc, snd loc))
      else Returns (relativeRequest timestamp idn, fst loc, snd loc))"

text \<open>Lines 186 to 189. \<open>currentImportees\<close> is the very set stored under the importer
  in \<open>importeeMap\<close> (line 143), so adding to it changes the map's entry.\<close>

definition recordImport :: "env \<Rightarrow> string \<Rightarrow> string \<Rightarrow> state \<Rightarrow> state" where
  "recordImport env importer resolved st =
     (let importee = importeePath env importer resolved;
          st1 = st\<lparr>importeeMap :=
                   (importeeMap st)(importer \<mapsto> setAdd importee (entryOf (importeeMap st) importer))\<rparr>;
          st2 = emit (DebugHmr (''        '' @ importer @ '' imports '' @ importee)) st1;
          m = ensureMapEntry (importerMap st2) importee
      in st2\<lparr>importerMap := m(importee \<mapsto> setAdd importer (entryOf m importee))\<rparr>)"

text \<open>The body of \<open>imports.forEach\<close> (lines 145 to 194) for one record. The state
  changes made before a throw stay.\<close>

definition rewriteImport ::
  "env \<Rightarrow> string \<Rightarrow> string \<Rightarrow> string option \<Rightarrow> importSpecifier \<Rightarrow> magicString \<times> bool
     \<Rightarrow> state \<Rightarrow> (magicString \<times> bool) outcome \<times> state" where
  "rewriteImport env source importer timestamp imp loc st =
     (let idn = substring source (imp_s imp) (imp_e imp) in
      if imp_d imp = -1 then
        (case resolveStatic env source importer timestamp idn loc of
           Throws \<Rightarrow> (Throws, st)
         | Returns (resolved, s1, h1) \<Rightarrow>
             if resolved \<noteq> idn then
               (let st1 = emit (Debug (''    '' @ dq @ idn @ dq @ '' --> '' @ dq @ resolved @ dq)) st
                in case overwrite (imp_s imp) (imp_e imp) resolved s1 of
                     Throws \<Rightarrow> (Throws, st1)
                   | Returns s2 \<Rightarrow> (Returns (s2, True), recordImport env importer resolved st1))
             else (Returns (s1, h1), recordImport env importer resolved st))
      else if 0 \<le> imp_d imp then
        (Returns loc, emit (Debug (''    dynamic import '' @ dq @ idn @ dq @ '' (ignored)'')) st)
      else (Returns loc, st))"

fun forEachImport ::
  "env \<Rightarrow> string \<Rightarrow> string \<Rightarrow> string option \<Rightarrow> importSpecifier list \<Rightarrow> magicString \<times> bool
     \<Rightarrow> state \<Rightarrow> (magicString \<times> bool) outcome \<times> state" where
  "forEachImport env source importer timestamp [] loc st = (Returns loc, st)"
| "forEachImport env source importer timestamp (imp # imps) loc st =
     (case rewriteImport env source importer timestamp imp loc st of
        (Throws, st') \<Rightarrow> (Throws, st')
      | (Returns loc', st') \<Rightarrow> forEachImport env source importer timestamp imps loc' st')"

text \<open>Lines 198 to 207: \<open>prevImportees.forEach\<close>.\<close>

fun removeStale :: "string \<Rightarrow> string list \<Rightarrow> state \<Rightarrow> state" where
  "removeStale importer [] st = st"
| "removeStale importer (importee # rest) st =
     removeStale importer rest
       (if importee \<notin> set (entryOf (importeeMap st) importer) then
          (case importerMap st importee of
             None \<Rightarrow> st
           | Some importers \<Rightarrow>
               st\<lparr>importerMap := (importerMap st)(importee \<mapsto> setDelete importer importers)\<rparr>)
        else st)"

text \<open>The body of the \<open>try\<close> block (lines 134 to 218). The source is a string, so
  the conversion of lines 130 to 132 does nothing.\<close>

definition rewriteImportsTry ::
  "env \<Rightarrow> string \<Rightarrow> string \<Rightarrow> string option \<Rightarrow> state \<Rightarrow> string outcome \<times> state" where
  "rewriteImportsTry env source importer timestamp st =
     (case parseImports env source of
        Throws \<Rightarrow> (Throws, st)
      | Returns imports \<Rightarrow>
          if imports \<noteq> [] then
            (let st1 = emit (Debug (importer @ '': rewriting'')) st;
                 prevImportees = importeeMap st1 importer;
                 st2 = st1\<lparr>importeeMap := (importeeMap st1)(importer \<mapsto> [])\<rparr>
             in case forEachImport env source importer timestamp imports
                       (newMagicString source, False) st2 of
                  (Throws, st3) \<Rightarrow> (Throws, st3)
                | (Returns (s, hasReplaced), st3) \<Rightarrow>
                    (let st4 = (case prevImportees of
                                  None \<Rightarrow> st3
                                | Some prev \<Rightarrow> removeStale importer prev st3);
                         st5 = (if \<not> hasReplaced
                                then emit (Debug ''    no imports rewritten.'') st4 else st4)
                     in (Returns (if hasReplaced then toString s else source), st5)))
          else (Returns source, emit (Debug (importer @ '': no imports found.'')) st))"

text \<open>\<open>rewriteImports\<close> with its \<open>catch\<close> (lines 219 to 226): the error goes to the
  console with the importer's path, the source to the debug channel, and the source is
  returned as it came.\<close>

definition rewriteImports ::
  "env \<Rightarrow> string \<Rightarrow> string \<Rightarrow> string option \<Rightarrow> state \<Rightarrow> string \<times> state" where
  "rewriteImports env source importer timestamp st =
     (case rewriteImportsTry env source importer timestamp st of
        (Returns r, st') \<Rightarrow> (r, st')
      | (Throws, st') \<Rightarrow>
          (source,
           emit (Debug source)
             (emit (ConsoleError (''[vite] Error: module imports rewrite failed for '' @ importer
                                   @ ''.'' @ [CHR 0x0A])) st')))"

subsection \<open>The rewrite cache (lru-cache, \<open>max: 1024\<close>)\<close>

text \<open>
  The cache is a list of key/value pairs, the most recently used first. \<open>has\<close> does not
  touch the order; \<open>get\<close> moves the entry to the front; \<open>set\<close> puts the entry at the front
  and drops the least recently used entries beyond the maximum; \<open>del\<close> removes the key.
\<close>

definition cacheMax :: nat where
  "cacheMax = 1024"

definition cacheHas :: "string \<Rightarrow> (string \<times> string) list \<Rightarrow> bool" where
  "cacheHas k c = (map_of c k \<noteq> None)"

definition cacheDel :: "string \<Rightarrow> (string \<times> string) list \<Rightarrow> (string \<times> string) list" where
  "cacheDel k c = filter (\<lambda>kv. fst kv \<noteq> k) c"

definition cacheGet :: "string \<Rightarrow> (string \<times> string) list \<Rightarrow> string option \<times> (string \<times> string) list" where
  "cacheGet k c =
     (case map_of c k of None \<Rightarrow> (None, c) | Some v \<Rightarrow> (Some v, (k, v) # cacheDel k c))"

definition cacheSet :: "string \<Rightarrow> string \<Rightarrow> (string \<times> string) list \<Rightarrow> (string \<times> string) list" where
  "cacheSet k v c = take cacheMax ((k, v) # cacheDel k c)"

subsection \<open>The plugin: watcher handler and middleware\<close>

text \<open>Lines 31 to 35: the handler of the watcher's \<open>change\<close> event.\<close>

definition onChange :: "env \<Rightarrow> string \<Rightarrow> state \<Rightarrow> state" where
  "onChange env file st =
     (let publicPath = fileToRequest env file;
          st1 = emit (Debug (publicPath @ '': cache busted'')) st
      in st1\<lparr>rewriteCache := cacheDel publicPath (rewriteCache st1)\<rparr>)"

definition devInjectionCode :: string where
  "devInjectionCode =
     [CHR 0x0A] @ ''<script>'' @ ''window.__DEV__ = true'' @ [CHR 0x0A]
     @ ''window.process = { env: { NODE_ENV: '' @ [CHR 0x27] @ ''development'' @ [CHR 0x27] @ '' }}''
     @ [CHR 0x0A] @ ''</script>'' @ [CHR 0x0A]"

text \<open>
  The expression \<open>/(<script\b[^>]*>)([\s\S]*?)<\/script>/gm\<close> tried at the start of a
  string: \<open><script\<close>, a word boundary, the attributes up to the first \<open>>\<close>, and the
  shortest body followed by \<open></script>\<close>. The result is the opening tag, the body and the
  text after the match.
\<close>

fun splitAtClose :: "string \<Rightarrow> (string \<times> string) option" where
  "splitAtClose [] = None"
| "splitAtClose (c # cs) =
     (if startsWith (c # cs) ''</script>'' then Some ([], drop 9 (c # cs))
      else (case splitAtClose cs of None \<Rightarrow> None | Some (b, r) \<Rightarrow> Some (c # b, r)))"

definition matchScriptAt :: "string \<Rightarrow> (string \<times> string \<times> string) option" where
  "matchScriptAt str =
     (if startsWith str ''<script'' then
        (case drop 7 str of
           [] \<Rightarrow> None
         | c # cs \<Rightarrow>
             if isWordChar c then None
             else (case dropWhile (\<lambda>x. x \<noteq> CHR ''>'') (c # cs) of
                     [] \<Rightarrow> None
                   | g # after \<Rightarrow>
                       (case splitAtClose after of
                          None \<Rightarrow> None
                        | Some (script, rest) \<Rightarrow>
                            Some (''<script'' @ takeWhile (\<lambda>x. x \<noteq> CHR ''>'') (c # cs) @ ''>'',
                                  script, rest))))
      else None)"

lemma splitAtClose_shorter: "splitAtClose s = Some (b, r) \<Longrightarrow> length r < length s"
proof (induction s arbitrary: b r)
  case Nil
  then show ?case by simp
next
  case (Cons c cs)
  show ?case
  proof (cases "startsWith (c # cs) ''</script>''")
    case True
    with Cons.prems show ?thesis by auto
  next
    case False
    with Cons.prems obtain b' where "splitAtClose cs = Some (b', r)"
      by (auto split: option.splits)
    from Cons.IH [OF this] show ?thesis by simp
  qed
qed

lemma matchScriptAt_shorter:
  assumes "matchScriptAt str = Some (openTag, script, rest)"
  shows "length rest < length str"
proof -
  from assms obtain c cs g after where
    d: "drop 7 str = c # cs" and
    w: "dropWhile (\<lambda>x. x \<noteq> CHR ''>'') (c # cs) = g # after" and
    s: "splitAtClose after = Some (script, rest)"
    by (auto simp: matchScriptAt_def split: if_splits list.splits option.splits)
  have "length rest < length after" using splitAtClose_shorter [OF s] .
  also have "length after < length (dropWhile (\<lambda>x. x \<noteq> CHR ''>'') (c # cs))"
    by (simp only: w) simp
  also have "\<dots> \<le> length (c # cs)" by (rule length_dropWhile_le)
  also have "\<dots> \<le> length str" by (simp only: d [symmetric]) simp
  finally show ?thesis .
qed

text \<open>
  Lines 59 to 72: \<open>html.replace(re, callback)\<close> scans from left to right; where the
  expression matches, the callback's result replaces the match and the scan goes on
  after it; other characters are copied. The flag \<open>hasInjectedDevFlag\<close> and the shared
  state are threaded through the callbacks.
\<close>

function htmlReplace :: "env \<Rightarrow> bool \<Rightarrow> string \<Rightarrow> state \<Rightarrow> string \<times> state" where
  "htmlReplace env hasInjectedDevFlag [] st = ([], st)"
| "htmlReplace env hasInjectedDevFlag (c # cs) st =
     (case matchScriptAt (c # cs) of
        None \<Rightarrow>
          (case htmlReplace env hasInjectedDevFlag cs st of (out, st') \<Rightarrow> (c # out, st'))
      | Some (openTag, script, rest) \<Rightarrow>
          (let devFlag = (if hasInjectedDevFlag then [] else devInjectionCode) in
           case rewriteImports env script ''/index.html'' None st of
             (rewritten, st1) \<Rightarrow>
               (case htmlReplace env True rest st1 of
                  (out, st2) \<Rightarrow> (devFlag @ openTag @ rewritten @ ''</script>'' @ out, st2))))"
  by pat_completeness auto
termination
  by (relation "measure (\<lambda>(env, flag, str, st). length str)")
     (auto dest: matchScriptAt_shorter)

text \<open>\<open>ctx.url.replace(/(&|\?)t=\d+/, '')\<close>: the first \<open>&t=\<close> or \<open>?t=\<close> that is followed
  by a digit is removed together with its digits.\<close>

fun stripTimestamp :: "string \<Rightarrow> string" where
  "stripTimestamp [] = []"
| "stripTimestamp (c # cs) =
     (if (c = CHR ''&'' \<or> c = CHR ''?'') \<and> startsWith cs ''t='' \<and>
         (case drop 2 cs of [] \<Rightarrow> False | d # _ \<Rightarrow> isDigit d)
      then dropWhile isDigit (drop 2 cs)
      else c # stripTimestamp cs)"

definition endsWith :: "string \<Rightarrow> string \<Rightarrow> bool" where
  "endsWith str p = startsWith (rev str) (rev p)"

text \<open>The part of the Koa context the middleware reads, and the body it writes. The
  body has been read to a string (\<open>readBody\<close>).\<close>

record ctx =
  status :: nat
  path :: string
  url :: string
  query_t :: "string option"
  query_type :: "string option"
  vue :: bool
  isJs :: bool
  body :: string

text \<open>Lines 52 to 75.\<close>

definition rewriteHtml :: "env \<Rightarrow> ctx \<Rightarrow> state \<Rightarrow> ctx \<times> state" where
  "rewriteHtml env c st =
     (let html = body c in
      if cacheHas html (rewriteCache st) then
        (let st1 = emit (Debug ''/index.html: serving from cache'') st in
         case cacheGet html (rewriteCache st1) of
           (v, cache') \<Rightarrow> (c\<lparr>body := (case v of None \<Rightarrow> [] | Some b \<Rightarrow> b)\<rparr>,
                           st1\<lparr>rewriteCache := cache'\<rparr>))
      else if body c \<noteq> [] then
        (case htmlReplace env False html st of
           (out, st1) \<Rightarrow> (c\<lparr>body := out\<rparr>, st1\<lparr>rewriteCache := cacheSet html out (rewriteCache st1)\<rparr>))
      else (c, st))"

text \<open>Lines 88 to 101.\<close>

definition rewriteScript :: "env \<Rightarrow> ctx \<Rightarrow> state \<Rightarrow> ctx \<times> state" where
  "rewriteScript env c st =
     (let content = body c in
      if cacheHas content (rewriteCache st) then
        (let st1 = emit (Debug (url c @ '': serving from cache'')) st in
         case cacheGet content (rewriteCache st1) of
           (v, cache') \<Rightarrow> (c\<lparr>body := (case v of None \<Rightarrow> [] | Some b \<Rightarrow> b)\<rparr>,
                           st1\<lparr>rewriteCache := cache'\<rparr>))
      else
        (case rewriteImports env content (stripTimestamp (url c)) (query_t c) st of
           (out, st1) \<Rightarrow>
             (c\<lparr>body := out\<rparr>, st1\<lparr>rewriteCache := cacheSet content out (rewriteCache st1)\<rparr>)))"

text \<open>Lines 45 to 105: the middleware, after the other middlewares have run.\<close>

definition moduleRewrite :: "env \<Rightarrow> ctx \<Rightarrow> state \<Rightarrow> ctx \<times> state" where
  "moduleRewrite env c st =
     (if status c = 304 then (c, st)
      else
        (case (if path c = ''/index.html'' then rewriteHtml env c st else (c, st)) of
           (c1, st1) \<Rightarrow>
             if isJs c1 \<and> \<not> endsWith (url c1) ''.map'' \<and> \<not> startsWith (path c1) ''/@hmr''
                \<and> \<not> ((endsWith (path c1) ''.vue'' \<or> vue c1) \<and> query_type c1 \<noteq> None)
             then rewriteScript env c1 st1
             else (c1, emit (Debug (''not rewriting: '' @ url c1)) st1)))"

subsection \<open>What the HMR transformer may do to the buffer\<close>

text \<open>
  \<open>slice src a b\<close> is the text \<open>src[a, b)\<close>; \<open>tailChunk src pos\<close> is the untouched chunk
  from \<open>pos\<close> to the end of the text and \<open>cutChunk src pos e ins\<close> the untouched chunk
  \<open>[pos, e)\<close> with the text \<open>ins\<close> inserted after it.

  The transformer is not among the sources; it patches the \<open>accept\<close> calls of the
  source with \<open>appendLeft\<close> and \<open>overwrite\<close>. \<open>patchFrom src lim ins rest\<close> is the buffer
  after such patches when they all stand at or after the offset \<open>lim\<close>: the chunks before
  \<open>lim\<close> stay, the chunk that reaches \<open>lim\<close> ends there and is followed by the inserted
  text \<open>ins\<close>, and \<open>rest\<close> are the chunks from \<open>lim\<close> on.
\<close>

definition slice :: "string \<Rightarrow> nat \<Rightarrow> nat \<Rightarrow> string" where
  "slice src a b = take (b - a) (drop a src)"

definition tailChunk :: "string \<Rightarrow> nat \<Rightarrow> chunk" where
  "tailChunk src pos =
     \<lparr>c_start = pos, c_end = length src, c_intro = [], c_content = drop pos src, c_outro = [],
      c_edited = False\<rparr>"


fun cutAt :: "string \<Rightarrow> nat \<Rightarrow> string \<Rightarrow> chunk list \<Rightarrow> chunk list" where
  "cutAt src lim ins [] = []"
| "cutAt src lim ins (c # cs) =
     (if c_end c < lim then c # cutAt src lim ins cs
      else if c_start c < lim then
        [c\<lparr>c_end := lim,
           c_content := (if c_edited c then c_content c else slice src (c_start c) lim),
           c_outro := ins\<rparr>]
      else [])"

definition patchFrom :: "string \<Rightarrow> nat \<Rightarrow> string \<Rightarrow> chunk list \<Rightarrow> magicString \<Rightarrow> magicString" where
  "patchFrom src lim ins rest m = m\<lparr>chunks := cutAt src lim ins (chunks m) @ rest\<rparr>"

subsection \<open>A concrete environment for the examples\<close>

text \<open>
  \<open>posixImporteePath\<close> is \<open>slash(path.resolve(path.dirname(importer), resolved))\<close> of Node
  on POSIX for an absolute importer. \<open>path.dirname\<close> drops the trailing slashes and the
  last segment; \<open>path.resolve\<close> takes the request alone when it is absolute, and drops
  empty and \<open>.\<close> segments while \<open>..\<close> removes the segment before it; \<open>slash\<close> turns
  backslashes into slashes unless the path has a character above \<open>0x80\<close>.
\<close>

fun splitSlash :: "string \<Rightarrow> string \<Rightarrow> string list" where
  "splitSlash acc [] = [rev acc]"
| "splitSlash acc (c # cs) =
     (if c = CHR ''/'' then rev acc # splitSlash [] cs else splitSlash (c # acc) cs)"

fun normalizeSegments :: "string list \<Rightarrow> string list \<Rightarrow> string list" where
  "normalizeSegments acc [] = rev acc"
| "normalizeSegments acc (seg # segs) =
     (if seg = [] \<or> seg = ''.'' then normalizeSegments acc segs
      else if seg = ''..'' then normalizeSegments (tl acc) segs
      else normalizeSegments (seg # acc) segs)"

definition slash :: "string \<Rightarrow> string" where
  "slash p =
     (if list_ex (\<lambda>c. 128 < (of_char c :: nat)) p then p
      else map (\<lambda>c. if c = CHR 0x5C then CHR ''/'' else c) p)"

definition posixImporteePath :: "string \<Rightarrow> string \<Rightarrow> string" where
  "posixImporteePath importer resolved =
     (let dir = butlast (rev (dropWhile (\<lambda>seg. seg = []) (rev (splitSlash [] importer))));
          segs = normalizeSegments []
                   ((if startsWith resolved ''/'' then [] else dir) @ splitSlash [] resolved)
      in slash (if segs = [] then ''/'' else concat (map (\<lambda>seg. ''/'' @ seg) segs)))"

text \<open>
  The example resolver knows the package \<open>vue\<close> and the HMR client. The example HMR
  transformer looks for the first \<open>hot.accept(\<close> of the source: without one it leaves the
  buffer alone; it throws when the argument is the broken expression \<open>1 +\<close>, as a parser
  does; otherwise it inserts the importer's path before the first argument. Files are
  served from the root directory \<open>/root\<close>.
\<close>

fun acceptArgAt :: "string \<Rightarrow> nat option" where
  "acceptArgAt [] = None"
| "acceptArgAt (c # cs) =
     (if startsWith (c # cs) ''hot.accept('' then Some 11 else map_option Suc (acceptArgAt cs))"

definition exampleTransformer :: "string \<Rightarrow> string \<Rightarrow> magicString \<Rightarrow> magicString outcome" where
  "exampleTransformer source importer s =
     (case acceptArgAt source of
        None \<Rightarrow> Returns s
      | Some k \<Rightarrow>
          if drop k source = ''1 +)'' then Throws
          else Returns (patchFrom source k (dq @ importer @ dq @ '', '') [tailChunk source k] s))"

definition exampleEnv :: "(string \<Rightarrow> importSpecifier list outcome) \<Rightarrow> env" where
  "exampleEnv lexer =
     \<lparr>parseImports = lexer,
      idToRequest = (\<lambda>idn. Returns (if idn = ''vue'' then Some ''/@modules/vue.js''
                                   else if idn = ''@hmr'' then Some ''/@hmr'' else None)),
      fileToRequest = (\<lambda>file. drop 5 file),
      rewriteFileWithHMR = exampleTransformer,
      hmrClientPublicPath = ''/@hmr'',
      importeePath = posixImporteePath\<rparr>"

definition emptyState :: state where
  "emptyState = \<lparr>importeeMap = Map.empty, importerMap = Map.empty, rewriteCache = [], logged = []\<rparr>"

definition staticAt :: "nat \<Rightarrow> nat \<Rightarrow> importSpecifier" where
  "staticAt a b = \<lparr>imp_s = a, imp_e = b, imp_d = -1\<rparr>"

definition dynamicAt :: "nat \<Rightarrow> nat \<Rightarrow> nat \<Rightarrow> importSpecifier" where
  "dynamicAt a b k = \<lparr>imp_s = a, imp_e = b, imp_d = int k\<rparr>"

definition metaAt :: "nat \<Rightarrow> nat \<Rightarrow> importSpecifier" where
  "metaAt a b = \<lparr>imp_s = a, imp_e = b, imp_d = -2\<rparr>"

text \<open>The import records of the example sources, as the lexer reports them: the
  specifier between its quotes for a static import, the argument for a dynamic import,
  the expression itself for \<open>import.meta\<close>.\<close>

definition exampleLexer :: "string \<Rightarrow> importSpecifier list outcome" where
  "exampleLexer src =
     (if src = ''import \"vue\"'' then Returns [staticAt 8 11]
      else if src = ''import \"./b\"'' then Returns [staticAt 8 11]
      else if src = ''import \"./b\"; import \"\"'' then Returns [staticAt 8 11, staticAt 22 22]
      else if src = ''import \"\"'' then Returns [staticAt 8 8]
      else if src = ''import { hot } from \"@hmr\"; hot.accept(1 +)'' then Returns [staticAt 21 25]
      else if src = ''import { hot } from \"@hmr\"; hot.accept(\"./dep.js\", cb)'' then
        Returns [staticAt 21 25]
      else if src = ''import \"./a\"; import(\"./b\")'' then
        Returns [staticAt 8 11, dynamicAt 21 26 14]
      else if src = ''import \"lib\"; import \"vue\"'' then
        Returns [staticAt 8 11, staticAt 22 25]
      else if src = ''import \"./my.dir/dep\"'' then Returns [staticAt 8 20]
      else if src = ''console.log(import.meta.url)'' then Returns [metaAt 12 23]
      else if src = ''import {'' then Throws
      else Returns [])"

subsection \<open>Notions used in the properties\<close>

text \<open>The edge sets of the graph: a missing entry is an empty set of edges.\<close>

definition importeesOf :: "state \<Rightarrow> string \<Rightarrow> string set" where
  "importeesOf st importer = set (entryOf (importeeMap st) importer)"

definition importersOf :: "state \<Rightarrow> string \<Rightarrow> string set" where
  "importersOf st importee = set (entryOf (importerMap st) importee)"

text \<open>The graph is symmetric when every importee edge has its importer edge
  (forward) and every importer edge has its importee edge (backward).\<close>

definition forwardSymmetric :: "state \<Rightarrow> bool" where
  "forwardSymmetric st = (\<forall>I E. E \<in> importeesOf st I \<longrightarrow> I \<in> importersOf st E)"

definition backwardSymmetric :: "state \<Rightarrow> bool" where
  "backwardSymmetric st = (\<forall>I E. I \<in> importersOf st E \<longrightarrow> E \<in> importeesOf st I)"

text \<open>A call fails after lexing when the lexer returns and the \<open>try\<close> block throws all
  the same; whether it does depends on the collaborators and the source only, so the
  empty state decides it (lemma \<open>rewriteImports_effect\<close>). The importees of a pass are
  those it records in an empty graph.\<close>

definition failsAfterLexing :: "env \<Rightarrow> string \<Rightarrow> string \<Rightarrow> string option \<Rightarrow> bool" where
  "failsAfterLexing env source importer timestamp =
     (parseImports env source \<noteq> Throws
      \<and> fst (rewriteImportsTry env source importer timestamp emptyState) = Throws)"

definition findsImports :: "env \<Rightarrow> string \<Rightarrow> bool" where
  "findsImports env source =
     (case parseImports env source of Throws \<Rightarrow> False | Returns imps \<Rightarrow> imps \<noteq> [])"

definition passImportees :: "env \<Rightarrow> string \<Rightarrow> string \<Rightarrow> string option \<Rightarrow> string set" where
  "passImportees env source importer timestamp =
     importeesOf (snd (rewriteImports env source importer timestamp emptyState)) importer"

fun rewriteAll :: "env \<Rightarrow> (string \<times> string \<times> string option) list \<Rightarrow> state \<Rightarrow> state" where
  "rewriteAll env [] st = st"
| "rewriteAll env ((source, importer, timestamp) # calls) st =
     rewriteAll env calls (snd (rewriteImports env source importer timestamp st))"

text \<open>How a pass over the importer \<open>I\<close> that recorded the importees \<open>A\<close> relates the
  graph before and after: \<open>grown\<close> for the loop, \<open>partly\<close> for a pass that threw in the
  loop, \<open>replaced\<close> for a pass that completed.\<close>

definition grown :: "string \<Rightarrow> string set \<Rightarrow> state \<Rightarrow> state \<Rightarrow> bool" where
  "grown I A st st' =
     (importeesOf st' = (importeesOf st)(I := importeesOf st I \<union> A)
      \<and> importersOf st' = (\<lambda>E. if E \<in> A then insert I (importersOf st E) else importersOf st E))"

definition replaced :: "string \<Rightarrow> string set \<Rightarrow> state \<Rightarrow> state \<Rightarrow> bool" where
  "replaced I A st st' =
     (importeesOf st' = (importeesOf st)(I := A)
      \<and> importersOf st' =
          (\<lambda>E. if E \<in> A then insert I (importersOf st E)
               else if E \<in> importeesOf st I then importersOf st E - {I} else importersOf st E))"

definition partly :: "string \<Rightarrow> string set \<Rightarrow> state \<Rightarrow> state \<Rightarrow> bool" where
  "partly I A st st' =
     (importeesOf st' = (importeesOf st)(I := A)
      \<and> importersOf st' = (\<lambda>E. if E \<in> A then insert I (importersOf st E) else importersOf st E))"

text \<open>
  The file extension of a path in the usual sense (\<open>path.extname\<close>): what follows the
  last dot of the last segment, with the dot, unless that dot begins the segment.
\<close>

definition fileExtension :: "string \<Rightarrow> string" where
  "fileExtension p =
     (let base = last (splitSlash [] p) in
      if CHR ''.'' \<notin> set base then []
      else (let ext = CHR ''.'' # rev (takeWhile (\<lambda>c. c \<noteq> CHR ''.'') (rev base))
            in if length ext = length base then [] else ext))"

text \<open>
  The rewritten text, described without the edit buffer. \<open>requestOf\<close> is the request a
  static specifier is rewritten to; \<open>staticEdits\<close> lists, for the static records in the
  lexer's order, the range of the specifier and its request; \<open>spliced src pos hi edits\<close>
  is the text of \<open>src[pos, hi)\<close> with each edit's range replaced by its request.
\<close>

definition requestOf :: "env \<Rightarrow> string option \<Rightarrow> string \<Rightarrow> string outcome" where
  "requestOf env timestamp idn =
     (if isBareId idn then bareRequest env idn else Returns (relativeRequest timestamp idn))"

fun staticEdits ::
  "env \<Rightarrow> string \<Rightarrow> string option \<Rightarrow> importSpecifier list \<Rightarrow> (nat \<times> nat \<times> string) list" where
  "staticEdits env source timestamp [] = []"
| "staticEdits env source timestamp (imp # imps) =
     (if imp_d imp = -1 then
        (case requestOf env timestamp (substring source (imp_s imp) (imp_e imp)) of
           Throws \<Rightarrow> []
         | Returns r \<Rightarrow> [(imp_s imp, imp_e imp, r)])
      else [])
     @ staticEdits env source timestamp imps"

fun spliced :: "string \<Rightarrow> nat \<Rightarrow> nat \<Rightarrow> (nat \<times> nat \<times> string) list \<Rightarrow> string" where
  "spliced src pos hi [] = slice src pos hi"
| "spliced src pos hi ((a, b, r) # edits) = slice src pos a @ r @ spliced src b hi edits"

text \<open>The edits are in order when each range is non-empty, starts at or after the end
  of the one before and ends within the text.\<close>

fun orderedEdits :: "nat \<Rightarrow> nat \<Rightarrow> (nat \<times> nat \<times> string) list \<Rightarrow> bool" where
  "orderedEdits pos n [] = True"
| "orderedEdits pos n ((a, b, r) # edits) = (pos \<le> a \<and> a < b \<and> b \<le> n \<and> orderedEdits b n edits)"

text \<open>
  A pass is calm when the resolver returns for every static bare specifier and the HMR
  transformer, if a specifier resolves to the HMR client from an importer that is not a
  Vue file, returns the buffer as it got it (there is nothing for it to patch).
\<close>

definition resolves :: "env \<Rightarrow> string \<Rightarrow> string option \<Rightarrow> importSpecifier \<Rightarrow> bool" where
  "resolves env source timestamp imp =
     (imp_d imp = -1
      \<longrightarrow> requestOf env timestamp (substring source (imp_s imp) (imp_e imp)) \<noteq> Throws)"

definition triggersHmr :: "env \<Rightarrow> string \<Rightarrow> string \<Rightarrow> importSpecifier \<Rightarrow> bool" where
  "triggersHmr env source importer imp =
     (imp_d imp = -1 \<and> isBareId (substring source (imp_s imp) (imp_e imp))
      \<and> bareRequest env (substring source (imp_s imp) (imp_e imp)) = Returns (hmrClientPublicPath env)
      \<and> \<not> isVueImporter importer)"

definition transformerIdle :: "env \<Rightarrow> string \<Rightarrow> string \<Rightarrow> bool" where
  "transformerIdle env source importer =
     (\<forall>m. rewriteFileWithHMR env source importer m = Returns m)"

definition calm :: "env \<Rightarrow> string \<Rightarrow> string \<Rightarrow> string option \<Rightarrow> importSpecifier list \<Rightarrow> bool" where
  "calm env source importer timestamp imps =
     (list_all (resolves env source timestamp) imps
      \<and> (list_ex (triggersHmr env source importer) imps \<longrightarrow> transformerIdle env source importer))"

text \<open>The shape of the buffer while the records are processed from left to right: the
  chunks up to \<open>pos\<close> render as \<open>sofar\<close>, and the rest of the text is one untouched chunk
  (or there is no rest).\<close>

definition bufferAt :: "string \<Rightarrow> string \<Rightarrow> nat \<Rightarrow> magicString \<Rightarrow> bool" where
  "bufferAt src sofar pos m =
     (original m = src \<and> ms_intro m = [] \<and> ms_outro m = [] \<and> pos \<le> length src
      \<and> (\<exists>cs. (chunks m = cs @ [tailChunk src pos] \<or> (pos = length src \<and> chunks m = cs))
             \<and> (\<forall>c\<in>set cs. c_start c < c_end c \<and> c_end c \<le> pos)
             \<and> concat (map chunkToString cs) = sofar))"

definition processedTo :: "string \<Rightarrow> string \<Rightarrow> nat \<Rightarrow> magicString \<Rightarrow> bool" where
  "processedTo src sofar pos m =
     (\<exists>d p. bufferAt src d p m \<and> p \<le> pos \<and> pos \<le> length src \<and> d @ slice src p pos = sofar)"







definition scriptWord :: "(char \<times> char) list" where
  "scriptWord = zip ''script'' ''SCRIPT''"

definition openWord :: "(char \<times> char) list" where
  "openWord = (CHR ''<'', CHR ''<'') # scriptWord"

definition closeWord :: "(char \<times> char) list" where
  "closeWord = (CHR ''<'', CHR ''<'') # (CHR ''/'', CHR ''/'') # scriptWord"


definition isTagSpace :: "char \<Rightarrow> bool" where
  "isTagSpace c = (c \<in> set [CHR 0x09, CHR 0x0A, CHR 0x0C, CHR 0x0D, CHR 0x20, CHR ''/''])"

text \<open>
  The inline script blocks of a document, as the scan of \<open>htmlReplace\<close> meets them:
  \<open>firstScript\<close> gives the text before the first block, its opening tag, its body and
  the text after it; \<open>scriptBlocks\<close> lists the bodies of all blocks.
\<close>

fun firstScript :: "string \<Rightarrow> (string \<times> string \<times> string \<times> string) option" where
  "firstScript [] = None"
| "firstScript (c # cs) =
     (case matchScriptAt (c # cs) of
        Some (openTag, script, rest) \<Rightarrow> Some ([], openTag, script, rest)
      | None \<Rightarrow>
          (case firstScript cs of
             None \<Rightarrow> None
           | Some (pre, openTag, script, rest) \<Rightarrow> Some (c # pre, openTag, script, rest)))"



definition htmlCtx :: "string \<Rightarrow> ctx" where
  "htmlCtx html =
     \<lparr>status = 200, path = ''/index.html'', url = ''/index.html'', query_t = None,
      query_type = None, vue = False, isJs = False, body = html\<rparr>"

definition scriptCtx :: "string \<Rightarrow> string \<Rightarrow> ctx" where
  "scriptCtx p content =
     \<lparr>status = 200, path = p, url = p, query_t = None, query_type = None, vue = False,
      isJs = True, body = content\<rparr>"

text \<open>The example states: \<open>/a.js\<close> has been served with the source
  \<open>import "vue"\<close>.\<close>

definition afterVue :: state where
  "afterVue = snd (rewriteImports (exampleEnv exampleLexer) ''import \"vue\"'' ''/a.js'' None emptyState)"

text \<open>The example document: two inline script blocks after a paragraph.\<close>

definition exampleHtml :: string where
  "exampleHtml =
     ''<p></p><script>import \"vue\"</script><script type=\"module\">import \"./b\"</script>''"

text \<open>A document whose first script element is external, followed by two inline
  blocks.\<close>

definition externalFirstHtml :: string where
  "externalFirstHtml =
     ''<script src=\"/x.js\"></script><script>import \"vue\"</script><script type=\"module\">import \"./b\"</script>''"

lemmas model_defs =
  Let_def exampleEnv_def exampleLexer_def emptyState_def staticAt_def dynamicAt_def metaAt_def
  exampleTransformer_def patchFrom_def tailChunk_def slash_def
  rewriteImports_def rewriteImportsTry_def rewriteImport_def resolveStatic_def bareRequest_def
  relativeRequest_def recordImport_def isBareId_def substring_def emit_def dq_def
  overwrite_def newMagicString_def chunkSplit_def editRange_def chunkEdit_def toString_def
  chunkToString_def posixImporteePath_def setAdd_def setDelete_def entryOf_def ensureMapEntry_def
  isLineTerminator_def isWordChar_def isDigit_def startsWith_def endsWith_def
  cacheHas_def cacheGet_def cacheSet_def cacheDel_def cacheMax_def onChange_def
  importeesOf_def importersOf_def failsAfterLexing_def findsImports_def passImportees_def afterVue_def
  matchScriptAt_def devInjectionCode_def moduleRewrite_def rewriteHtml_def rewriteScript_def
  htmlCtx_def scriptCtx_def exampleHtml_def
  requestOf_def slice_def calm_def resolves_def triggersHmr_def fileExtension_def
  scriptWord_def openWord_def closeWord_def isTagSpace_def externalFirstHtml_def

section \<open>Properties\<close>

subsection \<open>Failure of the lexer\<close>

text \<open>
  C4. When the lexer throws on the source, \<open>rewriteImports\<close> returns the source as it
  came; the graph and the cache are left alone; the console receives the error message
  with the importer's path and the debug channel receives the source.
\<close>

theorem rewriteImports_lexer_failure:
  assumes "parseImports env source = Throws"
  shows "rewriteImports env source importer timestamp st =
           (source,
            st\<lparr>logged := logged st @
               [ConsoleError (''[vite] Error: module imports rewrite failed for '' @ importer
                               @ ''.'' @ [CHR 0x0A]),
                Debug source]\<rparr>)"
  using assms by (simp add: rewriteImports_def rewriteImportsTry_def emit_def)

theorem rewriteImports_lexer_failure_witness:
  "rewriteImports (exampleEnv (\<lambda>src. Throws)) ''import {'' ''/main.js'' None emptyState =
     (''import {'',
      emptyState\<lparr>logged := logged emptyState @
         [ConsoleError (''[vite] Error: module imports rewrite failed for '' @ ''/main.js''
                         @ ''.'' @ [CHR 0x0A]),
          Debug ''import {'']\<rparr>)"
  using rewriteImports_lexer_failure [of "exampleEnv (\<lambda>src. Throws)" "''import {''" "''/main.js''" None emptyState]
  by (simp add: exampleEnv_def)

subsection \<open>Sources without import records\<close>

text \<open>
  C5 (as amended). When the lexer reports no import record for the source,
  \<open>rewriteImports\<close> returns the source unchanged and neither \<open>importeeMap\<close> nor
  \<open>importerMap\<close> is modified (nor is the cache).
\<close>

theorem rewriteImports_no_imports:
  assumes "parseImports env source = Returns []"
  shows "fst (rewriteImports env source importer timestamp st) = source
       \<and> importeeMap (snd (rewriteImports env source importer timestamp st)) = importeeMap st
       \<and> importerMap (snd (rewriteImports env source importer timestamp st)) = importerMap st
       \<and> rewriteCache (snd (rewriteImports env source importer timestamp st)) = rewriteCache st"
  using assms by (simp add: rewriteImports_def rewriteImportsTry_def emit_def)

theorem rewriteImports_no_imports_witness:
  "fst (rewriteImports (exampleEnv exampleLexer) ''let x = 1'' ''/a.js'' None afterVue)
     = ''let x = 1''
   \<and> importeeMap (snd (rewriteImports (exampleEnv exampleLexer) ''let x = 1'' ''/a.js'' None afterVue))
     = importeeMap afterVue
   \<and> importerMap (snd (rewriteImports (exampleEnv exampleLexer) ''let x = 1'' ''/a.js'' None afterVue))
     = importerMap afterVue
   \<and> rewriteCache (snd (rewriteImports (exampleEnv exampleLexer) ''let x = 1'' ''/a.js'' None afterVue))
     = rewriteCache afterVue"
proof -
  have "parseImports (exampleEnv exampleLexer) ''let x = 1'' = Returns []"
    by (simp add: exampleEnv_def exampleLexer_def)
  from rewriteImports_no_imports [OF this] show ?thesis .
qed

text \<open>
  The claim as stated fails for a source that has no import or export statement and
  yet gives the lexer a record: \<open>import.meta\<close> is an expression, and the lexer reports it
  (with \<open>d = -2\<close>), as it reports a dynamic \<open>import()\<close>. The guard of line 136 counts
  records, so the pass replaces the importer's importee set by the empty set and
  removes the importer from the importees of the previous pass.
\<close>

theorem import_meta_source_changes_graph:
  "parseImports (exampleEnv exampleLexer) ''console.log(import.meta.url)'' = Returns [metaAt 12 23]
   \<and> fst (rewriteImports (exampleEnv exampleLexer) ''console.log(import.meta.url)'' ''/a.js'' None
            afterVue) = ''console.log(import.meta.url)''
   \<and> importeeMap afterVue ''/a.js'' = Some [''/@modules/vue.js'']
   \<and> importeeMap (snd (rewriteImports (exampleEnv exampleLexer) ''console.log(import.meta.url)''
                          ''/a.js'' None afterVue)) ''/a.js'' = Some []
   \<and> importerMap afterVue ''/@modules/vue.js'' = Some [''/a.js'']
   \<and> importerMap (snd (rewriteImports (exampleEnv exampleLexer) ''console.log(import.meta.url)''
                          ''/a.js'' None afterVue)) ''/@modules/vue.js'' = Some []"
  by (simp add: model_defs)

subsection \<open>The dependency graph\<close>

lemma graph_emit: "importeesOf (emit l st) = importeesOf st" "importersOf (emit l st) = importersOf st"
  by (auto simp: importeesOf_def importersOf_def emit_def fun_eq_iff)

lemma set_setAdd: "set (setAdd x xs) = insert x (set xs)"
  by (auto simp: setAdd_def)

lemma set_setDelete: "set (setDelete x xs) = set xs - {x}"
  by (auto simp: setDelete_def)

lemma grown_refl: "grown I {} st st"
  by (simp add: grown_def)

lemma grown_emit: "grown I {} st (emit l st)"
  by (simp add: grown_def graph_emit)

lemma grown_trans: "grown I A st st1 \<Longrightarrow> grown I B st1 st2 \<Longrightarrow> grown I (A \<union> B) st st2"
  by (auto simp: grown_def fun_eq_iff)

lemma grown_recordImport: "grown I {importeePath env I r} st (recordImport env I r st)"
  by (auto simp: grown_def recordImport_def Let_def importeesOf_def importersOf_def emit_def
      entryOf_def ensureMapEntry_def set_setAdd fun_eq_iff split: option.splits)

lemma rewriteImport_effect:
  "\<exists>A out. \<forall>st. fst (rewriteImport env src I ts imp loc st) = out
        \<and> grown I A st (snd (rewriteImport env src I ts imp loc st))"
proof (cases "imp_d imp = -1")
  case False
  then show ?thesis
    by (intro exI [of _ "{}"] exI [of _ "Returns loc"])
       (auto simp: rewriteImport_def Let_def grown_refl grown_emit)
next
  case True
  let ?idn = "substring src (imp_s imp) (imp_e imp)"
  show ?thesis
  proof (cases "resolveStatic env src I ts ?idn loc")
    case Throws
    with True show ?thesis
      by (intro exI [of _ "{}"] exI [of _ "Throws"]) (auto simp: rewriteImport_def Let_def grown_refl)
  next
    case (Returns x)
    obtain resolved s1 h1 where x: "x = (resolved, s1, h1)" by (cases x)
    show ?thesis
    proof (cases "resolved = ?idn")
      case same: True
      with True Returns x show ?thesis
        by (intro exI [of _ "{importeePath env I resolved}"] exI [of _ "Returns (s1, h1)"])
           (auto simp: rewriteImport_def Let_def grown_recordImport)
    next
      case diff: False
      show ?thesis
      proof (cases "overwrite (imp_s imp) (imp_e imp) resolved s1")
        case ot: Throws
        with True Returns x diff show ?thesis
          by (intro exI [of _ "{}"] exI [of _ "Throws"])
             (auto simp: rewriteImport_def Let_def grown_emit)
      next
        case oret: (Returns s2)
        have "grown I ({} \<union> {importeePath env I resolved}) st
                (recordImport env I resolved (emit l st))" for l st
          by (rule grown_trans [OF grown_emit grown_recordImport])
        with True Returns x diff oret show ?thesis
          by (intro exI [of _ "{importeePath env I resolved}"] exI [of _ "Returns (s2, True)"])
             (auto simp: rewriteImport_def Let_def)
      qed
    qed
  qed
qed

lemma forEachImport_effect:
  "\<exists>A out. \<forall>st. fst (forEachImport env src I ts imps loc st) = out
        \<and> grown I A st (snd (forEachImport env src I ts imps loc st))"
proof (induction imps arbitrary: loc)
  case Nil
  show ?case by (intro exI [of _ "{}"] exI [of _ "Returns loc"]) (simp add: grown_refl)
next
  case (Cons imp imps)
  obtain A out where step: "\<And>st. fst (rewriteImport env src I ts imp loc st) = out"
     "\<And>st. grown I A st (snd (rewriteImport env src I ts imp loc st))"
    using rewriteImport_effect [of env src I ts imp loc] by blast
  show ?case
  proof (cases out)
    case Throws
    have "fst (forEachImport env src I ts (imp # imps) loc st) = Throws
        \<and> grown I A st (snd (forEachImport env src I ts (imp # imps) loc st))" for st
      using step(1) [of st] step(2) [of st] Throws
      by (cases "rewriteImport env src I ts imp loc st") auto
    then show ?thesis by blast
  next
    case (Returns loc')
    obtain B out' where rest: "\<And>st. fst (forEachImport env src I ts imps loc' st) = out'"
     "\<And>st. grown I B st (snd (forEachImport env src I ts imps loc' st))"
      using Cons.IH [of loc'] by blast
    have "fst (forEachImport env src I ts (imp # imps) loc st) = out'
        \<and> grown I (A \<union> B) st (snd (forEachImport env src I ts (imp # imps) loc st))" for st
    proof -
      obtain st1 where r: "rewriteImport env src I ts imp loc st = (Returns loc', st1)"
        using step(1) [of st] Returns by (cases "rewriteImport env src I ts imp loc st") auto
      have g1: "grown I A st st1" using step(2) [of st] r by simp
      have g2: "grown I B st1 (snd (forEachImport env src I ts imps loc' st1))" by (rule rest(2))
      show ?thesis using r rest(1) [of st1] grown_trans [OF g1 g2] by simp
    qed
    then show ?thesis by blast
  qed
qed


lemma removeStale_effect:
  "importeesOf (removeStale I prev st) = importeesOf st
   \<and> importersOf (removeStale I prev st) =
       (\<lambda>E. if E \<in> set prev \<and> E \<notin> importeesOf st I then importersOf st E - {I} else importersOf st E)"
proof (induction prev arbitrary: st)
  case Nil
  show ?case by simp
next
  case (Cons importee rest)
  define st1 where "st1 =
     (if importee \<notin> set (entryOf (importeeMap st) I) then
          (case importerMap st importee of
             None \<Rightarrow> st
           | Some xs \<Rightarrow>
               st\<lparr>importerMap := (importerMap st)(importee \<mapsto> setDelete I xs)\<rparr>)
        else st)"
  have a: "importeesOf st1 = importeesOf st"
    by (auto simp: st1_def importeesOf_def split: option.splits)
  have b: "importersOf st1 =
       (\<lambda>E. if E = importee \<and> E \<notin> importeesOf st I then importersOf st E - {I} else importersOf st E)"
    by (auto simp: st1_def importeesOf_def importersOf_def entryOf_def set_setDelete fun_eq_iff
        split: option.splits)
  have c: "removeStale I (importee # rest) st = removeStale I rest st1"
    by (simp add: st1_def)
  show ?case
    unfolding c using Cons.IH [of st1] by (auto simp: a b fun_eq_iff)
qed

lemma rewriteImportsTry_effect:
  assumes parse: "parseImports env src = Returns imps" and ne: "imps \<noteq> []"
  shows "\<exists>A thrown. \<forall>st.
           (fst (rewriteImportsTry env src I ts st) = Throws) = thrown
         \<and> (if thrown then partly I A st (snd (rewriteImportsTry env src I ts st))
            else replaced I A st (snd (rewriteImportsTry env src I ts st)))"
proof -
  obtain A out where loop:
    "\<And>st. fst (forEachImport env src I ts imps (newMagicString src, False) st) = out"
    "\<And>st. grown I A st (snd (forEachImport env src I ts imps (newMagicString src, False) st))"
    using forEachImport_effect [of env src I ts imps "(newMagicString src, False)"] by blast
  have "(fst (rewriteImportsTry env src I ts st) = Throws) = (out = Throws)
         \<and> (if out = Throws then partly I A st (snd (rewriteImportsTry env src I ts st))
            else replaced I A st (snd (rewriteImportsTry env src I ts st)))" for st
  proof -
    define st2 where "st2 = (emit (Debug (I @ '': rewriting'')) st)
                               \<lparr>importeeMap := (importeeMap (emit (Debug (I @ '': rewriting'')) st))(I \<mapsto> [])\<rparr>"
    define st3 where "st3 = snd (forEachImport env src I ts imps (newMagicString src, False) st2)"
    have e2: "importeesOf st2 = (importeesOf st)(I := {})" "importersOf st2 = importersOf st"
      by (auto simp: st2_def importeesOf_def importersOf_def emit_def entryOf_def fun_eq_iff)
    have g: "grown I A st2 st3" unfolding st3_def by (rule loop(2))
    have e3: "importeesOf st3 = (importeesOf st)(I := A)"
        "importersOf st3 = (\<lambda>E. if E \<in> A then insert I (importersOf st E) else importersOf st E)"
      using g by (auto simp: grown_def e2 fun_eq_iff)
    have prev: "(case importeeMap (emit (Debug (I @ '': rewriting'')) st) I of None \<Rightarrow> [] | Some xs \<Rightarrow> xs)
                 = entryOf (importeeMap st) I"
      by (simp add: emit_def entryOf_def)
    show ?thesis
    proof (cases out)
      case Throws
      then have "forEachImport env src I ts imps (newMagicString src, False) st2 = (Throws, st3)"
        using loop(1) [of st2] by (simp add: st3_def prod_eq_iff)
      then have "rewriteImportsTry env src I ts st = (Throws, st3)"
        using parse ne by (simp add: rewriteImportsTry_def Let_def st2_def)
      with Throws e3 show ?thesis by (simp add: partly_def)
    next
      case (Returns loc)
      obtain s h where loc: "loc = (s, h)" by (cases loc)
      have run: "forEachImport env src I ts imps (newMagicString src, False) st2 = (Returns (s, h), st3)"
        using loop(1) [of st2] Returns loc by (simp add: st3_def prod_eq_iff)
      define st4 where "st4 = (case importeeMap (emit (Debug (I @ '': rewriting'')) st) I of
                                  None \<Rightarrow> st3 | Some prev \<Rightarrow> removeStale I prev st3)"
      have e4: "importeesOf st4 = importeesOf st3"
          "importersOf st4 = (\<lambda>E. if E \<in> importeesOf st I \<and> E \<notin> importeesOf st3 I
                                then importersOf st3 E - {I} else importersOf st3 E)"
        using removeStale_effect [of I _ st3]
        by (auto simp: st4_def emit_def importeesOf_def [of st] entryOf_def fun_eq_iff split: option.splits)
      have res: "snd (rewriteImportsTry env src I ts st)
                  = (if \<not> h then emit (Debug ''    no imports rewritten.'') st4 else st4)"
          "fst (rewriteImportsTry env src I ts st) \<noteq> Throws"
        using parse ne run by (simp_all add: rewriteImportsTry_def Let_def st2_def st4_def)
      have "replaced I A st st4"
        by (auto simp: replaced_def e4 e3 fun_eq_iff)
      then have "replaced I A st (snd (rewriteImportsTry env src I ts st))"
        by (simp add: res replaced_def graph_emit)
      with res(2) Returns show ?thesis by simp
    qed
  qed
  then show ?thesis by blast
qed


lemma graph_rewriteImports:
  "importeesOf (snd (rewriteImports env src I ts st)) = importeesOf (snd (rewriteImportsTry env src I ts st))"
  "importersOf (snd (rewriteImports env src I ts st)) = importersOf (snd (rewriteImportsTry env src I ts st))"
  by (cases "rewriteImportsTry env src I ts st"; cases "fst (rewriteImportsTry env src I ts st)";
      simp add: rewriteImports_def graph_emit)+

lemma graph_emptyState: "importeesOf emptyState = (\<lambda>I. {})" "importersOf emptyState = (\<lambda>E. {})"
  by (simp_all add: importeesOf_def importersOf_def emptyState_def entryOf_def fun_eq_iff)

lemma rewriteImports_unchanged:
  assumes "\<not> findsImports env src"
  shows "importeesOf (snd (rewriteImports env src I ts st)) = importeesOf st"
    and "importersOf (snd (rewriteImports env src I ts st)) = importersOf st"
    and "fst (rewriteImports env src I ts st) = src"
  using assms
  by (auto simp: findsImports_def rewriteImports_def rewriteImportsTry_def graph_emit
      split: outcome.splits)

text \<open>The effect of one call on the graph, in its three cases.\<close>

lemma rewriteImports_effect:
  assumes "findsImports env src"
  shows "if failsAfterLexing env src I ts
         then partly I (passImportees env src I ts) st (snd (rewriteImports env src I ts st))
              \<and> fst (rewriteImports env src I ts st) = src
         else replaced I (passImportees env src I ts) st (snd (rewriteImports env src I ts st))"
proof -
  from assms obtain imps where parse: "parseImports env src = Returns imps" and ne: "imps \<noteq> []"
    by (auto simp: findsImports_def split: outcome.splits)
  obtain A thrown where eff:
    "\<And>st. (fst (rewriteImportsTry env src I ts st) = Throws) = thrown"
    "\<And>st. if thrown then partly I A st (snd (rewriteImportsTry env src I ts st))
            else replaced I A st (snd (rewriteImportsTry env src I ts st))"
    using rewriteImportsTry_effect [OF parse ne, of I ts] by blast
  have thrown: "failsAfterLexing env src I ts = thrown"
    using eff(1) [of emptyState] parse by (simp add: failsAfterLexing_def)
  have A: "passImportees env src I ts = A"
    using eff(2) [of emptyState]
    by (cases thrown)
       (simp_all add: passImportees_def graph_rewriteImports partly_def replaced_def graph_emptyState)
  have src: "fst (rewriteImports env src I ts st) = src" if thrown
    using eff(1) [of st] that
    by (cases "rewriteImportsTry env src I ts st") (auto simp: rewriteImports_def)
  show ?thesis
    using eff(2) [of st] src
    by (cases thrown) (simp_all add: thrown A partly_def replaced_def graph_rewriteImports)
qed

lemma forward_partly: "forwardSymmetric st \<Longrightarrow> partly I A st st' \<Longrightarrow> forwardSymmetric st'"
  by (auto simp: forwardSymmetric_def partly_def split: if_splits)

lemma forward_replaced: "forwardSymmetric st \<Longrightarrow> replaced I A st st' \<Longrightarrow> forwardSymmetric st'"
  unfolding forwardSymmetric_def replaced_def
  by (auto split: if_splits)

lemma backward_replaced: "backwardSymmetric st \<Longrightarrow> replaced I A st st' \<Longrightarrow> backwardSymmetric st'"
  unfolding backwardSymmetric_def replaced_def
  by (auto split: if_splits)

lemma forward_rewriteImports:
  assumes "forwardSymmetric st"
  shows "forwardSymmetric (snd (rewriteImports env src I ts st))"
proof (cases "findsImports env src")
  case False
  from rewriteImports_unchanged(1,2) [OF False, of I ts st] assms
  show ?thesis by (simp add: forwardSymmetric_def)
next
  case True
  from rewriteImports_effect [OF True, of I ts st] assms show ?thesis
    by (cases "failsAfterLexing env src I ts") (auto intro: forward_partly forward_replaced)
qed

lemma backward_rewriteImports:
  assumes "backwardSymmetric st" and "\<not> failsAfterLexing env src I ts"
  shows "backwardSymmetric (snd (rewriteImports env src I ts st))"
proof (cases "findsImports env src")
  case False
  from rewriteImports_unchanged(1,2) [OF False, of I ts st] assms
  show ?thesis by (simp add: backwardSymmetric_def)
next
  case True
  from rewriteImports_effect [OF True, of I ts st] assms show ?thesis
    by (auto intro: backward_replaced)
qed

lemma forward_rewriteAll: "forwardSymmetric st \<Longrightarrow> forwardSymmetric (rewriteAll env calls st)"
  by (induction calls arbitrary: st) (auto simp: forward_rewriteImports)

lemma backward_rewriteAll:
  "backwardSymmetric st
    \<Longrightarrow> list_all (\<lambda>(source, importer, timestamp). \<not> failsAfterLexing env source importer timestamp) calls
    \<Longrightarrow> backwardSymmetric (rewriteAll env calls st)"
  by (induction calls arbitrary: st) (auto simp: backward_rewriteImports)

lemma stale_removed:
  assumes "findsImports env src" "\<not> failsAfterLexing env src I ts"
    and "E \<in> importeesOf st I" "E \<notin> importeesOf (snd (rewriteImports env src I ts st)) I"
  shows "I \<notin> importersOf (snd (rewriteImports env src I ts st)) E"
  using rewriteImports_effect [OF assms(1), of I ts st] assms(2-)
  by (auto simp: replaced_def)

text \<open>
  C2 (as amended). From a forward-symmetric graph, every sequence of \<open>rewriteImports\<close>
  calls leads to a forward-symmetric graph (each importee of an importer lists that
  importer). From a backward-symmetric graph, every sequence of calls none of which
  fails after lexing leads to a backward-symmetric graph. After a call for an importer
  that finds at least one import record and does not fail, every importee the importer
  had before and no longer has does not list the importer.
\<close>

theorem graph_symmetry:
  "(forwardSymmetric st \<longrightarrow> forwardSymmetric (rewriteAll env calls st))
   \<and> (backwardSymmetric st
        \<and> list_all (\<lambda>(source, importer, timestamp). \<not> failsAfterLexing env source importer timestamp) calls
      \<longrightarrow> backwardSymmetric (rewriteAll env calls st))
   \<and> (findsImports env source \<and> \<not> failsAfterLexing env source importer timestamp
        \<and> E \<in> importeesOf st importer
        \<and> E \<notin> importeesOf (snd (rewriteImports env source importer timestamp st)) importer
      \<longrightarrow> importer \<notin> importersOf (snd (rewriteImports env source importer timestamp st)) E)"
  using forward_rewriteAll backward_rewriteAll stale_removed by blast

theorem graph_symmetry_witness:
  "forwardSymmetric (rewriteAll (exampleEnv exampleLexer)
      [(''import \"vue\"'', ''/a.js'', None), (''import \"./b\"'', ''/a.js'', None)] emptyState)
   \<and> backwardSymmetric (rewriteAll (exampleEnv exampleLexer)
      [(''import \"vue\"'', ''/a.js'', None), (''import \"./b\"'', ''/a.js'', None)] emptyState)
   \<and> ''/a.js'' \<notin> importersOf
         (snd (rewriteImports (exampleEnv exampleLexer) ''import \"./b\"'' ''/a.js'' None afterVue))
         ''/@modules/vue.js''"
proof -
  let ?env = "exampleEnv exampleLexer"
  let ?calls = "[(''import \"vue\"'', ''/a.js'', None), (''import \"./b\"'', ''/a.js'', None)]"
  have f: "forwardSymmetric emptyState" and b: "backwardSymmetric emptyState"
    by (simp_all add: forwardSymmetric_def backwardSymmetric_def graph_emptyState)
  have ok: "list_all (\<lambda>(source, importer, timestamp). \<not> failsAfterLexing ?env source importer timestamp) ?calls"
    by (simp add: model_defs)
  have h: "findsImports ?env ''import \"./b\"''"
      "\<not> failsAfterLexing ?env ''import \"./b\"'' ''/a.js'' None"
      "''/@modules/vue.js'' \<in> importeesOf afterVue ''/a.js''"
      "''/@modules/vue.js'' \<notin> importeesOf
          (snd (rewriteImports ?env ''import \"./b\"'' ''/a.js'' None afterVue)) ''/a.js''"
    by (simp_all add: model_defs)
  from graph_symmetry [of emptyState ?env ?calls] f b ok
  have 1: "forwardSymmetric (rewriteAll ?env ?calls emptyState)"
    and 2: "backwardSymmetric (rewriteAll ?env ?calls emptyState)"
    by blast+
  from graph_symmetry [of afterVue ?env "[]" "''import \"./b\"''" "''/a.js''" None "''/@modules/vue.js''"] h
  have 3: "''/a.js'' \<notin> importersOf
         (snd (rewriteImports ?env ''import \"./b\"'' ''/a.js'' None afterVue)) ''/@modules/vue.js''"
    by blast
  from 1 2 3 show ?thesis by blast
qed

text \<open>
  The claim as stated fails where the new source has no import record at all: the
  importee set of the source is empty, hence strictly smaller, the call leaves the
  graph as it is, and the importee of the previous pass still lists the importer.
\<close>

theorem stale_edge_after_rewrite_without_imports:
  "parseImports (exampleEnv exampleLexer) ''let x = 1'' = Returns []
   \<and> importeesOf afterVue ''/a.js'' = {''/@modules/vue.js''}
   \<and> ''/a.js'' \<in> importersOf
        (snd (rewriteImports (exampleEnv exampleLexer) ''let x = 1'' ''/a.js'' None afterVue))
        ''/@modules/vue.js''"
  by (simp add: model_defs)

text \<open>
  C9. When the lexer finds import records and the loop over them throws, the call still
  returns the source; the importer's entry in \<open>importeeMap\<close> has been replaced by the
  importees recorded up to the throw; and no importer set has lost anything: each is
  what it was, with the importer added for the importees recorded up to the throw.
  In the example the second import has the empty specifier, whose request \<open>.js\<close> cannot
  overwrite a range of length zero.
\<close>

theorem rewriteImports_not_atomic:
  assumes "findsImports env source" and "failsAfterLexing env source importer timestamp"
  shows "fst (rewriteImports env source importer timestamp st) = source
       \<and> importeesOf (snd (rewriteImports env source importer timestamp st)) importer
           = passImportees env source importer timestamp
       \<and> (\<forall>E. importersOf (snd (rewriteImports env source importer timestamp st)) E
              = (if E \<in> passImportees env source importer timestamp
                 then insert importer (importersOf st E) else importersOf st E))"
  using rewriteImports_effect [OF assms(1), of importer timestamp st] assms(2)
  by (simp add: partly_def)

theorem rewriteImports_not_atomic_witness:
  "fst (rewriteImports (exampleEnv exampleLexer) ''import \"./b\"; import \"\"'' ''/a.js'' None afterVue)
     = ''import \"./b\"; import \"\"''
   \<and> importeeMap afterVue ''/a.js'' = Some [''/@modules/vue.js'']
   \<and> importeeMap (snd (rewriteImports (exampleEnv exampleLexer)
          ''import \"./b\"; import \"\"'' ''/a.js'' None afterVue)) ''/a.js''
     = Some [''/b.js'']
   \<and> importeesOf (snd (rewriteImports (exampleEnv exampleLexer)
          ''import \"./b\"; import \"\"'' ''/a.js'' None afterVue)) ''/a.js''
     = {''/b.js''}
   \<and> importersOf (snd (rewriteImports (exampleEnv exampleLexer)
          ''import \"./b\"; import \"\"'' ''/a.js'' None afterVue)) ''/@modules/vue.js''
     = {''/a.js''}"
proof -
  let ?env = "exampleEnv exampleLexer"
  let ?src = "''import \"./b\"; import \"\"''"
  have h: "findsImports ?env ?src" "failsAfterLexing ?env ?src ''/a.js'' None"
    by (simp_all add: model_defs)
  have p: "passImportees ?env ?src ''/a.js'' None = {''/b.js''}"
    by (simp add: model_defs)
  have v: "importersOf afterVue ''/@modules/vue.js'' = {''/a.js''}"
    "importeeMap afterVue ''/a.js'' = Some [''/@modules/vue.js'']"
    by (simp_all add: model_defs)
  have m: "importeeMap (snd (rewriteImports ?env ?src ''/a.js'' None afterVue)) ''/a.js''
             = Some [''/b.js'']"
    by (simp add: model_defs)
  from rewriteImports_not_atomic [OF h, of afterVue] v m show ?thesis
    by (simp add: p)
qed

subsection \<open>HTML responses\<close>



lemma startsWith_join: "startsWith str p \<Longrightarrow> str = p @ drop (length p) str"
  by (metis append_take_drop_id startsWith_def)

lemma splitAtClose_join: "splitAtClose s = Some (b, r) \<Longrightarrow> s = b @ ''</script>'' @ r"
proof (induction s arbitrary: b r)
  case Nil
  then show ?case by simp
next
  case (Cons c cs)
  have len: "length ''</script>'' = 9" by simp
  show ?case
  proof (cases "startsWith (c # cs) ''</script>''")
    case True
    with Cons.prems have "b = []" "r = drop 9 (c # cs)" by auto
    with startsWith_join [OF True] show ?thesis unfolding len by simp
  next
    case False
    with Cons.prems obtain b' where s: "splitAtClose cs = Some (b', r)" and b: "b = c # b'"
      by (auto split: option.splits)
    from Cons.IH [OF s] b show ?thesis by simp
  qed
qed

lemma matchScriptAt_join:
  assumes "matchScriptAt str = Some (openTag, script, rest)"
  shows "str = openTag @ script @ ''</script>'' @ rest"
proof -
  from assms obtain c cs g after where
    sw: "startsWith str ''<script''" and
    d: "drop 7 str = c # cs" and
    w: "dropWhile (\<lambda>x. x \<noteq> CHR ''>'') (c # cs) = g # after" and
    s: "splitAtClose after = Some (script, rest)" and
    o: "openTag = ''<script'' @ takeWhile (\<lambda>x. x \<noteq> CHR ''>'') (c # cs) @ ''>''"
    by (auto simp: matchScriptAt_def split: if_splits list.splits option.splits)
  define x where "x = c # cs"
  define tag where "tag = takeWhile (\<lambda>x. x \<noteq> CHR ''>'') x"
  have len: "length ''<script'' = 7" by simp
  have g: "g = CHR ''>''"
    using hd_dropWhile [of "\<lambda>x. x \<noteq> CHR ''>''" "c # cs"] w by simp
  have "x = tag @ dropWhile (\<lambda>x. x \<noteq> CHR ''>'') x"
    unfolding tag_def by simp
  then have x: "x = tag @ CHR ''>'' # after"
    using w g by (simp add: x_def)
  have "str = ''<script'' @ x"
    using startsWith_join [OF sw] unfolding len d x_def .
  also note x
  also note splitAtClose_join [OF s]
  finally show ?thesis using o by (simp add: tag_def x_def)
qed

lemma firstScript_join:
  "firstScript html = Some (pre, openTag, script, rest)
     \<Longrightarrow> html = pre @ openTag @ script @ ''</script>'' @ rest"
proof (induction html arbitrary: pre)
  case Nil
  then show ?case by simp
next
  case (Cons c cs)
  show ?case
  proof (cases "matchScriptAt (c # cs)")
    case None
    with Cons.prems obtain pre' where f: "firstScript cs = Some (pre', openTag, script, rest)"
      and p: "pre = c # pre'"
      by (auto split: option.splits)
    from Cons.IH [OF f] p show ?thesis by simp
  next
    case (Some m)
    with Cons.prems have m: "m = (openTag, script, rest)" and p: "pre = []"
      by (auto split: prod.splits)
    from matchScriptAt_join [OF Some [unfolded m]] p show ?thesis by simp
  qed
qed










text \<open>
  The claim as stated fails when an external script comes first: the pattern matches
  every script element, so the snippet stands before the external element's tag and
  not immediately before the opening tag of the first inline block.
\<close>

theorem snippet_before_external_script:
  "externalFirstHtml
     = ''<script src=\"/x.js\"></script>''
       @ ''<script>import \"vue\"</script><script type=\"module\">import \"./b\"</script>''
   \<and> body (fst (moduleRewrite (exampleEnv exampleLexer) (htmlCtx externalFirstHtml) emptyState))
     = devInjectionCode
       @ ''<script src=\"/x.js\"></script>''
       @ ''<script>import \"/@modules/vue.js\"</script><script type=\"module\">import \"./b.js\"</script>''"
  by (simp add: model_defs)









subsection \<open>The rewrite cache\<close>

text \<open>A body stored under a raw body is what a lookup of that raw body returns.\<close>

lemma cache_round_trip: "fst (cacheGet k (cacheSet k v c)) = Some v"
  by (simp add: cacheGet_def cacheSet_def cacheMax_def)

text \<open>The change handler deletes the entry whose key is the request path of the file,
  and no other entry.\<close>

lemma onChange_cache:
  "map_of (rewriteCache (onChange env file st)) k
     = (if k = fileToRequest env file then None else map_of (rewriteCache st) k)"
proof -
  have "map_of (filter (\<lambda>kv. fst kv \<noteq> p) c) k = (if k = p then None else map_of c k)"
    for p and c :: "(string \<times> string) list"
    by (induction c) auto
  then show ?thesis by (simp add: onChange_def Let_def emit_def cacheDel_def)
qed

text \<open>
  C1, on the code. The file \<open>/root/a.js\<close> is served as \<open>/a.js\<close> with the body
  \<open>import "vue"\<close>; the rewritten body is stored under the raw body. After the change
  notification for that file, whose request path is \<open>/a.js\<close>, a lookup of the raw body
  still returns the stored body: the entry has not been deleted.
\<close>

theorem rewrite_cache_survives_change:
  "fileToRequest (exampleEnv exampleLexer) ''/root/a.js'' = ''/a.js''
   \<and> body (fst (moduleRewrite (exampleEnv exampleLexer)
                  (scriptCtx ''/a.js'' ''import \"vue\"'') emptyState))
       = ''import \"/@modules/vue.js\"''
   \<and> fst (cacheGet ''import \"vue\"''
            (rewriteCache (onChange (exampleEnv exampleLexer) ''/root/a.js''
               (snd (moduleRewrite (exampleEnv exampleLexer)
                       (scriptCtx ''/a.js'' ''import \"vue\"'') emptyState)))))
       = Some ''import \"/@modules/vue.js\"''"
  by (simp add: model_defs)

subsection \<open>The rewritten text\<close>

lemma slice_append: "a \<le> b \<Longrightarrow> b \<le> c \<Longrightarrow> slice src a b @ slice src b c = slice src a c"
proof -
  assume ab: "a \<le> b" and bc: "b \<le> c"
  have "take (c - a) (drop a src) = take (b - a) (drop a src) @ take (c - b) (drop (b - a) (drop a src))"
    using ab bc take_add [of "b - a" "c - b" "drop a src"] by simp
  then show ?thesis using ab by (simp add: slice_def)
qed

lemma slice_same: "slice src a a = []"
  by (simp add: slice_def)

lemma slice_to_length: "slice src a (length src) = drop a src"
  by (simp add: slice_def)

lemma substring_slice: "a \<le> b \<Longrightarrow> b \<le> length src \<Longrightarrow> substring src a b = slice src a b"
  by (simp add: substring_def slice_def Let_def min_def max_def)

lemma splitAt_skip:
  assumes "\<forall>c\<in>set cs. \<not> (c_start c < i \<and> i < c_end c)"
  shows "splitAt src i (cs @ rest)
           = (case splitAt src i rest of Throws \<Rightarrow> Throws | Returns r \<Rightarrow> Returns (cs @ r))"
  using assms by (induction cs) (auto split: outcome.splits)

lemma splitAt_tail:
  assumes "pos \<le> i" "i \<le> length src"
  shows "splitAt src i [tailChunk src pos]
           = Returns ((if pos < i \<and> i < length src
                       then [\<lparr>c_start = pos, c_end = i, c_intro = [], c_content = slice src pos i,
                               c_outro = [], c_edited = False\<rparr>]
                       else []) @ [tailChunk src (if i < length src then i else pos)])"
  using assms
  by (auto simp: tailChunk_def chunkSplit_def Let_def substring_slice slice_to_length)


lemma editRange_before:
  "c_start c < c_end c \<Longrightarrow> c_end c \<le> a \<Longrightarrow> editRange a b r c = c"
  by (simp add: editRange_def)

lemma overwrite_chunks:
  assumes ch: "chunks m = cs @ [tailChunk src pos]" and orig: "original m = src"
    and cs: "\<forall>c\<in>set cs. c_start c < c_end c \<and> c_end c \<le> pos"
    and le: "pos \<le> a" "a < b" "b \<le> length src"
  shows "overwrite a b r m =
           Returns (m\<lparr>chunks :=
              cs @ (if pos < a
                    then [\<lparr>c_start = pos, c_end = a, c_intro = [], c_content = slice src pos a,
                            c_outro = [], c_edited = False\<rparr>]
                    else [])
                 @ [\<lparr>c_start = a, c_end = b, c_intro = [], c_content = r, c_outro = [],
                      c_edited = True\<rparr>]
                 @ (if b < length src then [tailChunk src b] else [])\<rparr>)"
proof -
  let ?P1 = "(if pos < a
                    then [\<lparr>c_start = pos, c_end = a, c_intro = [], c_content = slice src pos a,
                            c_outro = [], c_edited = False\<rparr>]
                    else [])"
  have skip1: "\<forall>c\<in>set cs. \<not> (c_start c < a \<and> a < c_end c)" using cs le by auto
  have s1: "splitAt src a (chunks m) = Returns (cs @ ?P1 @ [tailChunk src a])"
    unfolding ch using le
    by (simp add: splitAt_skip [OF skip1] splitAt_tail del: splitAt.simps)
  have skip2: "\<forall>c\<in>set (cs @ ?P1). \<not> (c_start c < b \<and> b < c_end c)" using cs le by auto
  have s2: "splitAt src b (cs @ ?P1 @ [tailChunk src a])
              = Returns ((cs @ ?P1) @ (if b < length src
                     then [\<lparr>c_start = a, c_end = b, c_intro = [], c_content = slice src a b,
                            c_outro = [], c_edited = False\<rparr>, tailChunk src b]
                     else [tailChunk src a]))"
    using splitAt_skip [OF skip2, of src "[tailChunk src a]"] le
    by (simp add: splitAt_tail del: splitAt.simps)
  have e1: "map (editRange a b r) cs = cs"
    using cs le by (intro map_idI editRange_before) auto
  have e2: "map (editRange a b r) ?P1 = ?P1"
    using le by (simp add: editRange_def)
  show ?thesis
    using le
    by (simp add: overwrite_def orig s1 s2 e1 e2 del: splitAt.simps)
       (auto simp: editRange_def chunkEdit_def tailChunk_def)
qed

lemma overwrite_bufferAt:
  assumes buf: "bufferAt src sofar pos m" and le: "pos \<le> a" "a < b" "b \<le> length src"
  shows "\<exists>m'. overwrite a b r m = Returns m' \<and> bufferAt src (sofar @ slice src pos a @ r) b m'"
proof -
  from buf le obtain cs where ch: "chunks m = cs @ [tailChunk src pos]"
    and cs: "\<forall>c\<in>set cs. c_start c < c_end c \<and> c_end c \<le> pos"
    and dn: "concat (map chunkToString cs) = sofar"
    and orig: "original m = src" "ms_intro m = []" "ms_outro m = []"
    by (auto simp: bufferAt_def)
  let ?cs' = "cs @ (if pos < a
                    then [\<lparr>c_start = pos, c_end = a, c_intro = [], c_content = slice src pos a,
                            c_outro = [], c_edited = False\<rparr>]
                    else [])
                 @ [\<lparr>c_start = a, c_end = b, c_intro = [], c_content = r, c_outro = [],
                      c_edited = True\<rparr>]"
  let ?m' = "m\<lparr>chunks := ?cs' @ (if b < length src then [tailChunk src b] else [])\<rparr>"
  have ov: "overwrite a b r m = Returns ?m'"
    using overwrite_chunks [OF ch orig(1) cs le, of r] by simp
  have inv: "\<forall>c\<in>set ?cs'. c_start c < c_end c \<and> c_end c \<le> b"
    using cs le by auto
  have rendered: "concat (map chunkToString ?cs') = sofar @ slice src pos a @ r"
    using dn le by (auto simp: chunkToString_def slice_same)
  have "bufferAt src (sofar @ slice src pos a @ r) b ?m'"
    unfolding bufferAt_def
    using orig le inv rendered
    by (intro conjI exI [of _ ?cs']) auto
  with ov show ?thesis by blast
qed

lemma bufferAt_toString: "bufferAt src sofar pos m \<Longrightarrow> toString m = sofar @ drop pos src"
  by (auto simp: bufferAt_def toString_def chunkToString_def tailChunk_def)

lemma bufferAt_new: "bufferAt src [] 0 (newMagicString src)"
  by (auto simp: bufferAt_def newMagicString_def tailChunk_def)


lemma resolveStatic_calm:
  assumes st: "imp_d imp = -1"
    and rq: "requestOf env ts (substring src (imp_s imp) (imp_e imp)) = Returns r"
    and idle: "triggersHmr env src I imp \<longrightarrow> transformerIdle env src I"
  shows "\<exists>h'. resolveStatic env src I ts (substring src (imp_s imp) (imp_e imp)) (m, h)
                 = Returns (r, m, h') \<and> (h \<longrightarrow> h')"
proof (cases "isBareId (substring src (imp_s imp) (imp_e imp))")
  case False
  with rq show ?thesis by (auto simp: resolveStatic_def requestOf_def)
next
  case True
  with rq have b: "bareRequest env (substring src (imp_s imp) (imp_e imp)) = Returns r"
    by (simp add: requestOf_def)
  show ?thesis
  proof (cases "r = hmrClientPublicPath env \<and> \<not> isVueImporter I")
    case hmr: True
    with True b st idle have "rewriteFileWithHMR env src I m = Returns m"
      by (simp add: triggersHmr_def transformerIdle_def)
    with True b hmr show ?thesis by (auto simp: resolveStatic_def)
  next
    case False
    with True b show ?thesis by (auto simp: resolveStatic_def)
  qed
qed

lemma rewriteImport_static_output:
  assumes st: "imp_d imp = -1"
    and rq: "requestOf env ts (substring src (imp_s imp) (imp_e imp)) = Returns r"
    and idle: "triggersHmr env src I imp \<longrightarrow> transformerIdle env src I"
    and buf: "processedTo src sofar pos m"
    and le: "pos \<le> imp_s imp" "imp_s imp < imp_e imp" "imp_e imp \<le> length src"
  shows "\<exists>m' h' st'. rewriteImport env src I ts imp (m, h) st = (Returns (m', h'), st')
           \<and> (h \<longrightarrow> h') \<and> (\<not> h' \<longrightarrow> m' = m)
           \<and> processedTo src (sofar @ slice src pos (imp_s imp) @ r) (imp_e imp) m'"
proof -
  let ?a = "imp_s imp" and ?b = "imp_e imp"
  let ?idn = "substring src ?a ?b"
  from buf obtain d p where b: "bufferAt src d p m" and p: "p \<le> pos" "pos \<le> length src"
    and dn: "d @ slice src p pos = sofar"
    by (auto simp: processedTo_def)
  from resolveStatic_calm [OF st rq idle, of m h] obtain h1 where
    rs: "resolveStatic env src I ts ?idn (m, h) = Returns (r, m, h1)" and h1: "h \<longrightarrow> h1"
    by blast
  have join: "d @ slice src p ?a = sofar @ slice src pos ?a"
    using slice_append [of p pos ?a src] p le dn by (metis append_assoc)
  show ?thesis
  proof (cases "r = ?idn")
    case True
    have "slice src p ?b = slice src p ?a @ r"
      using slice_append [of p ?a ?b src] p le True by (simp add: substring_slice)
    then have "d @ slice src p ?b = sofar @ slice src pos ?a @ r"
      using join by simp
    then have "processedTo src (sofar @ slice src pos ?a @ r) ?b m"
      unfolding processedTo_def using b p le by (intro exI [of _ d] exI [of _ p]) simp
    with st rs True h1 show ?thesis
      by (auto simp: rewriteImport_def Let_def)
  next
    case False
    from overwrite_bufferAt [OF b, of ?a ?b r] p le obtain m2 where
      ov: "overwrite ?a ?b r m = Returns m2" and b2: "bufferAt src (d @ slice src p ?a @ r) ?b m2"
      by auto
    have "processedTo src (sofar @ slice src pos ?a @ r) ?b m2"
      unfolding processedTo_def using b2 le join
      by (intro exI [of _ "d @ slice src p ?a @ r"] exI [of _ ?b]) (simp add: slice_same)
    with st rs False ov show ?thesis
      by (auto simp: rewriteImport_def Let_def)
  qed
qed

lemma rewriteImport_other:
  assumes "imp_d imp \<noteq> -1"
  shows "\<exists>st'. rewriteImport env src I ts imp loc st = (Returns loc, st')"
  using assms by (simp add: rewriteImport_def Let_def)

lemma forEachImport_output:
  assumes "processedTo src sofar pos m"
    and "list_all (resolves env src ts) imps"
    and "list_ex (triggersHmr env src I) imps \<longrightarrow> transformerIdle env src I"
    and "orderedEdits pos (length src) (staticEdits env src ts imps)"
  shows "\<exists>m' h' st'. forEachImport env src I ts imps (m, h) st = (Returns (m', h'), st')
           \<and> toString m' = sofar @ spliced src pos (length src) (staticEdits env src ts imps)
           \<and> (h \<longrightarrow> h') \<and> (\<not> h' \<longrightarrow> m' = m)"
  using assms
proof (induction imps arbitrary: sofar pos m h st)
  case Nil
  from Nil.prems(1) obtain d p where b: "bufferAt src d p m" and p: "p \<le> pos" "pos \<le> length src"
    and dn: "d @ slice src p pos = sofar"
    by (auto simp: processedTo_def)
  have "toString m = d @ slice src p (length src)"
    using bufferAt_toString [OF b] by (simp add: slice_to_length)
  also have "\<dots> = d @ slice src p pos @ slice src pos (length src)"
    using slice_append [of p pos "length src" src] p by simp
  finally show ?case using dn by simp
next
  case (Cons imp imps)
  show ?case
  proof (cases "imp_d imp = -1")
    case False
    from rewriteImport_other [OF False, of env src I ts "(m, h)" st] obtain st1 where
      step: "rewriteImport env src I ts imp (m, h) st = (Returns (m, h), st1)" by blast
    from Cons.prems False have
      "list_all (resolves env src ts) imps"
      "list_ex (triggersHmr env src I) imps \<longrightarrow> transformerIdle env src I"
      "orderedEdits pos (length src) (staticEdits env src ts imps)"
      by simp_all
    from Cons.IH [OF Cons.prems(1) this, of h st1] step False show ?thesis by simp
  next
    case True
    from Cons.prems(2) True obtain r where
      rq: "requestOf env ts (substring src (imp_s imp) (imp_e imp)) = Returns r"
      by (cases "requestOf env ts (substring src (imp_s imp) (imp_e imp))")
         (auto simp: resolves_def)
    from Cons.prems(4) True rq have
      le: "pos \<le> imp_s imp" "imp_s imp < imp_e imp" "imp_e imp \<le> length src"
      and ord: "orderedEdits (imp_e imp) (length src) (staticEdits env src ts imps)"
      by simp_all
    from Cons.prems(3) have idle: "triggersHmr env src I imp \<longrightarrow> transformerIdle env src I"
      and idle': "list_ex (triggersHmr env src I) imps \<longrightarrow> transformerIdle env src I"
      by simp_all
    from rewriteImport_static_output [OF True rq idle Cons.prems(1) le, of h st]
    obtain m1 h1 st1 where
      step: "rewriteImport env src I ts imp (m, h) st = (Returns (m1, h1), st1)"
      and mono: "h \<longrightarrow> h1" and same: "\<not> h1 \<longrightarrow> m1 = m"
      and buf: "processedTo src (sofar @ slice src pos (imp_s imp) @ r) (imp_e imp) m1"
      by blast
    from Cons.prems(2) have res: "list_all (resolves env src ts) imps" by simp
    from Cons.IH [OF buf res idle' ord, of h1 st1] obtain m' h' st' where
      "forEachImport env src I ts imps (m1, h1) st1 = (Returns (m', h'), st')"
      "toString m' = (sofar @ slice src pos (imp_s imp) @ r)
                       @ spliced src (imp_e imp) (length src) (staticEdits env src ts imps)"
      "h1 \<longrightarrow> h'" "\<not> h' \<longrightarrow> m' = m1"
      by blast
    with step mono same True rq show ?thesis by auto
  qed
qed

lemma rewriteImportsTry_output:
  assumes parse: "parseImports env source = Returns imps"
    and calm: "calm env source importer timestamp imps"
    and ord: "orderedEdits 0 (length source) (staticEdits env source timestamp imps)"
  shows "fst (rewriteImportsTry env source importer timestamp st)
           = Returns (spliced source 0 (length source) (staticEdits env source timestamp imps))"
proof (cases "imps = []")
  case True
  with parse show ?thesis
    by (simp add: rewriteImportsTry_def slice_def)
next
  case False
  have start: "processedTo source [] 0 (newMagicString source)"
    unfolding processedTo_def using bufferAt_new [of source]
    by (intro exI [of _ "[]"] exI [of _ 0]) (simp add: slice_same)
  define st2 where "st2 = (emit (Debug (importer @ '': rewriting'')) st)
      \<lparr>importeeMap := (importeeMap (emit (Debug (importer @ '': rewriting'')) st))(importer \<mapsto> [])\<rparr>"
  from calm have c: "list_all (resolves env source timestamp) imps"
      "list_ex (triggersHmr env source importer) imps \<longrightarrow> transformerIdle env source importer"
    by (simp_all add: calm_def)
  from forEachImport_output [OF start c ord, of False st2] obtain m' h' st' where
    run: "forEachImport env source importer timestamp imps (newMagicString source, False) st2
            = (Returns (m', h'), st')"
    and out: "toString m' = spliced source 0 (length source) (staticEdits env source timestamp imps)"
    and same: "\<not> h' \<longrightarrow> m' = newMagicString source"
    by auto
  have new: "toString (newMagicString source) = source"
    using bufferAt_toString [OF bufferAt_new [of source]] by simp
  have "fst (rewriteImportsTry env source importer timestamp st)
          = Returns (if h' then toString m' else source)"
    using parse False run
    by (simp add: rewriteImportsTry_def Let_def st2_def)
  with out same new show ?thesis by (cases h') auto
qed

lemma rewriteImports_output:
  assumes "parseImports env source = Returns imps"
    and "calm env source importer timestamp imps"
    and "orderedEdits 0 (length source) (staticEdits env source timestamp imps)"
  shows "fst (rewriteImports env source importer timestamp st)
           = spliced source 0 (length source) (staticEdits env source timestamp imps)"
  using rewriteImportsTry_output [OF assms, of st]
  by (cases "rewriteImportsTry env source importer timestamp st") (simp add: rewriteImports_def)

lemma staticEdits_append:
  "staticEdits env source ts (xs @ ys) = staticEdits env source ts xs @ staticEdits env source ts ys"
  by (induction xs) simp_all


lemma spliced_gap:
  assumes "list_all (\<lambda>(a, b, r). b \<le> lo) es1" and "list_all (\<lambda>(a, b, r). hi \<le> a) es2"
    and "orderedEdits pos n (es1 @ es2)" and "pos \<le> lo" "lo \<le> hi" "hi \<le> n"
  shows "spliced src pos n (es1 @ es2) = spliced src pos lo es1 @ slice src lo hi @ spliced src hi n es2"
  using assms
proof (induction es1 arbitrary: pos)
  case Nil
  show ?case
  proof (cases es2)
    case Nil
    have "slice src pos n = slice src pos hi @ slice src hi n"
      using Nil.prems slice_append [of pos hi n src] by simp
    also have "slice src pos hi = slice src pos lo @ slice src lo hi"
      using Nil.prems slice_append [of pos lo hi src] by simp
    finally show ?thesis using Nil by simp
  next
    case (Cons e es)
    obtain a b r where e: "e = (a, b, r)" by (cases e)
    with Cons Nil.prems have ha: "hi \<le> a" by simp
    have "slice src pos a = slice src pos hi @ slice src hi a"
      using Nil.prems ha slice_append [of pos hi a src] by simp
    also have "slice src pos hi = slice src pos lo @ slice src lo hi"
      using Nil.prems slice_append [of pos lo hi src] by simp
    finally show ?thesis using Cons e by simp
  qed
next
  case (Cons e es1)
  obtain a b r where e: "e = (a, b, r)" by (cases e)
  with Cons.prems have "b \<le> lo" "list_all (\<lambda>(a, b, r). b \<le> lo) es1"
    "orderedEdits b n (es1 @ es2)"
    by simp_all
  from Cons.IH [OF this(2) Cons.prems(2) this(3) this(1) Cons.prems(5,6)] e
  show ?case by simp
qed























text \<open>
  The claim as stated fails where the branch itself raises. Lines 151 to 160 run the HMR
  transformer inside the bare branch, and nothing catches its error there: it ends the
  pass. In the example the transformer cannot parse \<open>hot.accept(1 +)\<close> and throws; the
  \<open>catch\<close> of \<open>rewriteImports\<close> returns the source with the specifier \<open>@hmr\<close> as it was,
  although the resolver resolves it to \<open>/@hmr\<close>.
\<close>

theorem hot_module_transformer_throws:
  "parseImports (exampleEnv exampleLexer) ''import { hot } from \"@hmr\"; hot.accept(1 +)''
     = Returns [staticAt 21 25]
   \<and> imp_d (staticAt 21 25) = -1
   \<and> substring ''import { hot } from \"@hmr\"; hot.accept(1 +)'' 21 25 = ''@hmr''
   \<and> isBareId ''@hmr''
   \<and> idToRequest (exampleEnv exampleLexer) ''@hmr'' = Returns (Some ''/@hmr'')
   \<and> rewriteFileWithHMR (exampleEnv exampleLexer) ''import { hot } from \"@hmr\"; hot.accept(1 +)''
        ''/main.js'' (newMagicString ''import { hot } from \"@hmr\"; hot.accept(1 +)'') = Throws
   \<and> failsAfterLexing (exampleEnv exampleLexer) ''import { hot } from \"@hmr\"; hot.accept(1 +)''
        ''/main.js'' None
   \<and> fst (rewriteImports (exampleEnv exampleLexer) ''import { hot } from \"@hmr\"; hot.accept(1 +)''
        ''/main.js'' None emptyState)
       = ''import { hot } from \"@hmr\"; hot.accept(1 +)''"
  by (simp add: model_defs)

text \<open>
  C8. In a calm pass over records in source order, let \<open>[lo, hi)\<close> be a range of the
  source around the specifier of a dynamic import (the specifier itself, or the whole
  import expression) such that the static specifiers recorded before it end at or before
  \<open>lo\<close> and those recorded after it start at or after \<open>hi\<close>. Then the rewritten text is the
  rewritten text of the source before \<open>lo\<close>, the bytes \<open>source[lo, hi)\<close> as they are, and
  the rewritten text of the source from \<open>hi\<close> on. Nothing is asked of the specifier's
  shape.
\<close>

theorem dynamic_import_untouched:
  assumes parse: "parseImports env source = Returns (before @ imp # after)"
    and calm: "calm env source importer timestamp (before @ imp # after)"
    and ord: "orderedEdits 0 (length source)
                (staticEdits env source timestamp (before @ imp # after))"
    and dynamic: "0 \<le> imp_d imp"
    and range: "lo \<le> imp_s imp" "imp_s imp \<le> imp_e imp" "imp_e imp \<le> hi" "hi \<le> length source"
    and sep: "list_all (\<lambda>(a, b, r). b \<le> lo) (staticEdits env source timestamp before)"
             "list_all (\<lambda>(a, b, r). hi \<le> a) (staticEdits env source timestamp after)"
  shows "fst (rewriteImports env source importer timestamp st)
           = spliced source 0 lo (staticEdits env source timestamp before)
             @ slice source lo hi
             @ spliced source hi (length source) (staticEdits env source timestamp after)"
proof -
  have edits: "staticEdits env source timestamp (before @ imp # after)
                 = staticEdits env source timestamp before @ staticEdits env source timestamp after"
    using dynamic by (simp add: staticEdits_append)
  from range have le: "lo \<le> hi" by simp
  show ?thesis
    using rewriteImports_output [OF parse calm ord, of st]
      spliced_gap [OF sep ord [unfolded edits] _ le range(4), of source]
    by (simp add: edits)
qed

theorem dynamic_import_untouched_witness:
  "fst (rewriteImports (exampleEnv exampleLexer) ''import \"./a\"; import(\"./b\")'' ''/main.js''
          None emptyState)
     = ''import \"./a.js\"; '' @ ''import(\"./b\")'' @ []"
proof -
  let ?env = "exampleEnv exampleLexer"
  let ?src = "''import \"./a\"; import(\"./b\")''"
  have parse: "parseImports ?env ?src = Returns ([staticAt 8 11] @ dynamicAt 21 26 14 # [])"
    by (simp add: model_defs)
  have calm: "calm ?env ?src ''/main.js'' None ([staticAt 8 11] @ dynamicAt 21 26 14 # [])"
    by (simp add: model_defs)
  have ord: "orderedEdits 0 (length ?src)
               (staticEdits ?env ?src None ([staticAt 8 11] @ dynamicAt 21 26 14 # []))"
    by (simp add: model_defs)
  have dyn: "0 \<le> imp_d (dynamicAt 21 26 14)"
    and range: "14 \<le> imp_s (dynamicAt 21 26 14)"
      "imp_s (dynamicAt 21 26 14) \<le> imp_e (dynamicAt 21 26 14)"
      "imp_e (dynamicAt 21 26 14) \<le> 27" "27 \<le> length ?src"
    by (simp_all add: model_defs)
  have sep: "list_all (\<lambda>(a, b, r). b \<le> 14) (staticEdits ?env ?src None [staticAt 8 11])"
      "list_all (\<lambda>(a, b, r). 27 \<le> a) (staticEdits ?env ?src None [])"
    by (simp_all add: model_defs)
  from dynamic_import_untouched [OF parse calm ord dyn range sep, of emptyState]
  show ?thesis by (simp add: model_defs)
qed

subsection \<open>Relative and absolute specifiers\<close>

text \<open>The request is the path, with \<open>.js\<close> appended unless \<open>/\.\w+/\<close> matches it, then
  the query as it was, then the token parameter after \<open>?\<close> or \<open>&\<close> when a non-empty
  token is given.\<close>

lemma splitQuery_join: "splitQuery idn = (p, q) \<Longrightarrow> p @ q = idn"
  by (induction idn arbitrary: p q) (auto split: if_splits prod.splits)

lemma splitQuery_query: "splitQuery idn = (p, q) \<Longrightarrow> q = [] \<or> hd q = CHR ''?''"
  by (induction idn arbitrary: p q) (auto split: if_splits prod.splits)

lemma relativeRequest_parts:
  assumes "splitQuery idn = (p, q)"
  shows "relativeRequest None idn = (if hasDotWord p then p else p @ ''.js'') @ q"
    and "t \<noteq> [] \<Longrightarrow> relativeRequest (Some t) idn
           = (if hasDotWord p then p else p @ ''.js'') @ q @ (if q = [] then ''?'' else ''&'') @ ''t='' @ t"
    and "relativeRequest (Some []) idn = relativeRequest None idn"
  using assms by (simp_all add: relativeRequest_def)


text \<open>
  C3, on the code. The path \<open>./my.dir/dep\<close> has no file extension, yet the request is the
  specifier unchanged, since \<open>/\.\w+/\<close> matches \<open>.dir\<close>; the import statement is served as
  it came. The path \<open>./dep\<close> does get the extension.
\<close>

theorem dotted_directory_blocks_default_extension:
  "fileExtension ''./my.dir/dep'' = []
   \<and> relativeRequest None ''./my.dir/dep'' = ''./my.dir/dep''
   \<and> fst (rewriteImports (exampleEnv exampleLexer) ''import \"./my.dir/dep\"'' ''/main.js'' None
            emptyState)
       = ''import \"./my.dir/dep\"''
   \<and> relativeRequest None ''./dep'' = ''./dep.js''"
  by (simp add: model_defs)

end
